theory Spec2Isabelle
  imports Main "HOL-Library.AList"
begin

section \<open>JavaScript values\<close>

text \<open>
  The store of \<^verbatim>\<open>lib/rules/storage.js\<close> keeps JSON data: property values are arbitrary
  JSON documents, file bodies are strings. Numbers are the integer-valued ones (a double
  that holds an integer is that integer here); no operation of the store computes with a
  property value.
\<close>

datatype jsval =
    JUndefined
  | JNull
  | JBool bool
  | JNum int
  | JStr string
  | JArr "jsval list"
  | JObj "(string \<times> jsval) list"

fun truthy :: "jsval \<Rightarrow> bool" where
  "truthy JUndefined = False"
| "truthy JNull = False"
| "truthy (JBool b) = b"
| "truthy (JNum n) = (n \<noteq> 0)"
| "truthy (JStr s) = (s \<noteq> [])"
| "truthy (JArr xs) = True"
| "truthy (JObj kvs) = True"

text \<open>Decimal digits of a natural number, for the conversion of a number to a property key.\<close>

function show_nat :: "nat \<Rightarrow> string" where
  "show_nat n =
     (if n < 10 then [char_of (48 + n)]
      else show_nat (n div 10) @ [char_of (48 + n mod 10)])"
  by pat_completeness auto
termination
  by (relation "measure id") auto

definition show_int :: "int \<Rightarrow> string" where
  "show_int i = (if i < 0 then CHR ''-'' # show_nat (nat (- i)) else show_nat (nat i))"

fun join_comma :: "string list \<Rightarrow> string" where
  "join_comma [] = []"
| "join_comma [s] = s"
| "join_comma (s # t # ss) = s @ '','' @ join_comma (t # ss)"

text \<open>
  \<^verbatim>\<open>ToString\<close>, which JavaScript applies to a value used as a property key
  (\<^verbatim>\<open>files[file]\<close>) or as the argument of \<^verbatim>\<open>String.prototype.indexOf\<close>. An array is
  joined with commas, its \<^verbatim>\<open>null\<close> and \<^verbatim>\<open>undefined\<close> elements printing as nothing.
\<close>

fun ToString :: "jsval \<Rightarrow> string" where
  "ToString JUndefined = ''undefined''"
| "ToString JNull = ''null''"
| "ToString (JBool b) = (if b then ''true'' else ''false'')"
| "ToString (JNum n) = show_int n"
| "ToString (JStr s) = s"
| "ToString (JArr xs) =
     join_comma (map (\<lambda>x. if x = JUndefined \<or> x = JNull then [] else ToString x) xs)"
| "ToString (JObj kvs) = ''[object Object]''"

text \<open>
  \<^verbatim>\<open>Array.prototype.indexOf\<close>: the first position holding a value strictly equal to the one
  sought, or \<^verbatim>\<open>-1\<close>. Every value the store looks for is a primitive (a name, \<^verbatim>\<open>null\<close> or
  \<^verbatim>\<open>undefined\<close>), and strict equality with a primitive is equality of the values.
\<close>

fun indexOf :: "'a list \<Rightarrow> 'a \<Rightarrow> int" where
  "indexOf [] v = - 1"
| "indexOf (x # xs) v =
     (if x = v then 0 else (let i = indexOf xs v in if i = - 1 then - 1 else i + 1))"

text \<open>\<^verbatim>\<open>String.prototype.indexOf\<close>: the first position at which the needle occurs, or \<^verbatim>\<open>-1\<close>.\<close>

fun str_indexOf :: "string \<Rightarrow> string \<Rightarrow> int" where
  "str_indexOf [] needle = (if needle = [] then 0 else - 1)"
| "str_indexOf (c # cs) needle =
     (if take (length needle) (c # cs) = needle then 0
      else (let i = str_indexOf cs needle in if i = - 1 then - 1 else i + 1))"

text \<open>
  \<^verbatim>\<open>Array.prototype.splice(start, deleteCount, ...items)\<close>: a negative \<^verbatim>\<open>start\<close> counts
  from the end of the array, and both \<^verbatim>\<open>start\<close> and \<^verbatim>\<open>deleteCount\<close> are clamped to it.
\<close>

definition splice :: "int \<Rightarrow> nat \<Rightarrow> 'a list \<Rightarrow> 'a list \<Rightarrow> 'a list" where
  "splice start deleteCount items xs =
     (let len = int (length xs);
          from = nat (if start < 0 then max (len + start) 0 else min start len)
      in take from xs @ items @ drop (from + deleteCount) xs)"

text \<open>
  The name argument of a file operation: a string, or one of the two absent values. It is
  falsy when absent or empty; as a key of the file table it is converted with
  \<^verbatim>\<open>ToString\<close>.
\<close>

datatype name_arg = ArgUndefined | ArgNull | ArgStr string

fun val_of :: "name_arg \<Rightarrow> jsval" where
  "val_of ArgUndefined = JUndefined"
| "val_of ArgNull = JNull"
| "val_of (ArgStr s) = JStr s"

definition truthy_name :: "name_arg \<Rightarrow> bool" where
  "truthy_name a = truthy (val_of a)"

definition key_of :: "name_arg \<Rightarrow> string" where
  "key_of a = ToString (val_of a)"

text \<open>
  What a call does: it returns a value, or it throws, or it leaves what is modelled here
  (\<open>Unmodelled\<close>, explained with the file table below).
\<close>

datatype exn = TypeError | IOError | SyntaxError

datatype 'a outcome = Returned 'a | Threw exn | Unmodelled

text \<open>
  What a call into the platform did (\<^verbatim>\<open>fs.readFileSync\<close>, \<^verbatim>\<open>JSON.parse\<close>): it gave a value or
  it raised an exception.
\<close>

datatype 'a attempt = Gave 'a | Raised exn

section \<open>Objects used as dictionaries\<close>

text \<open>
  The file table and the property map are plain objects (\<^verbatim>\<open>{}\<close>, or what \<^verbatim>\<open>JSON.parse\<close>
  returned), and the code reads them with \<^verbatim>\<open>table[name]\<close> and \<^verbatim>\<open>name in table\<close>. Such a read
  sees the object's own keys and, behind them, the members of \<^verbatim>\<open>Object.prototype\<close>:
  eleven built-in functions and the accessor \<^verbatim>\<open>__proto__\<close>. An inherited member is truthy
  and is not a file record or a JSON value; \<^verbatim>\<open>Object.keys\<close> and \<^verbatim>\<open>delete\<close> see own keys
  only. An association list holds the own keys, in insertion order.
\<close>

definition inherited_names :: "string list" where
  "inherited_names =
     [''constructor'', ''__defineGetter__'', ''__defineSetter__'', ''hasOwnProperty'',
      ''__lookupGetter__'', ''__lookupSetter__'', ''isPrototypeOf'', ''propertyIsEnumerable'',
      ''toString'', ''valueOf'', ''__proto__'', ''toLocaleString'']"

datatype 'a found = Own 'a | Inherited | Absent

definition table_get :: "(string \<times> 'a) list \<Rightarrow> string \<Rightarrow> 'a found" where
  "table_get table k =
     (case map_of table k of
        Some v \<Rightarrow> Own v
      | None \<Rightarrow> if k \<in> set inherited_names then Inherited else Absent)"

text \<open>
  \<^verbatim>\<open>Object.keys\<close> lists the own keys: first those that are array indices (the decimal
  numeral, without leading zeros, of an integer below \<open>2 ^ 32 - 1\<close>) in ascending numeric
  order, then the other keys in insertion order.
\<close>

definition array_index :: "string \<Rightarrow> int option" where
  "array_index k =
     (if k \<noteq> [] \<and> list_all (\<lambda>c. c \<in> set ''0123456789'') k \<and> (k = ''0'' \<or> hd k \<noteq> CHR ''0'')
      then (let n = foldl (\<lambda>a c. 10 * a + (of_char c - 48)) 0 k
            in if n < 4294967295 then Some n else None)
      else None)"

definition object_keys :: "(string \<times> 'a) list \<Rightarrow> string list" where
  "object_keys table =
     (let ks = map fst table
      in sort_key (\<lambda>k. the (array_index k)) (filter (\<lambda>k. array_index k \<noteq> None) ks) @
         filter (\<lambda>k. array_index k = None) ks)"

text \<open>
  The counter and the indices are numbers, that is doubles, and they hold integers. Up to
  \<open>2 ^ 53\<close> adding one is exact; from there on the sum is rounded to the nearest double, to
  the one with the even significand in a tie: the counter stays where it is, or moves
  by two when it lies between \<open>2 ^ 53\<close> and \<open>2 ^ 54\<close> and its half is odd.
\<close>

definition js_inc :: "int \<Rightarrow> int" where
  "js_inc x =
     (if x < 2 ^ 53 then x + 1
      else if x < 2 ^ 54 \<and> odd (x div 2) then x + 2
      else x)"

section \<open>The write-behind flags\<close>

text \<open>
  \<^verbatim>\<open>_writeProperties\<close> (lines 111-129) and \<^verbatim>\<open>_writeFile\<close> (lines 131-154) run the same
  procedure, each on the flags of its own unit: \<^verbatim>\<open>_writePropertiesPending\<close>,
  \<^verbatim>\<open>_writePropertiesWaiting\<close>, \<^verbatim>\<open>_writePropertiesTimeout\<close> of the store, and \<^verbatim>\<open>_pending\<close>,
  \<^verbatim>\<open>_waiting\<close>, \<^verbatim>\<open>_timeout\<close> of a file record. A flag that was never set is falsy, so it
  is \<open>False\<close> here; \<open>timeout\<close> says that a retry timer is armed.
\<close>

record writer =
  pending :: bool
  waiting :: bool
  timeout :: bool

definition idle :: writer where
  "idle = \<lparr>pending = False, waiting = False, timeout = False\<rparr>"

text \<open>
  A persistence request. While a write is in flight it only raises \<open>waiting\<close>; otherwise it
  cancels the retry timer, raises \<open>pending\<close> and tells the caller (the second component)
  to issue the write.
\<close>

definition persist :: "writer \<Rightarrow> writer \<times> bool" where
  "persist w =
     (if pending w then (w\<lparr>waiting := True\<rparr>, False)
      else (w\<lparr>timeout := False, pending := True\<rparr>, True))"

section \<open>The cache\<close>

text \<open>
  File records are objects: the table, the callbacks and the callers of
  \<^verbatim>\<open>getFileList(true)\<close> hold references to them. The heap is the list of the objects
  allocated so far and a reference is a position in it.

  Where the code finds an inherited member of \<^verbatim>\<open>Object.prototype\<close> under a file name and
  goes on to use it as a file record (it stores \<^verbatim>\<open>data\<close> and the flags on a built-in
  function shared by the whole process), where it assigns the key \<^verbatim>\<open>__proto__\<close> and so
  replaces the prototype of a table, and where the properties document is valid JSON
  but not an object, the cache is no longer described by a state of this theory. The
  outcome is then \<open>Unmodelled\<close>, and the field \<open>modelled\<close> of the state is \<open>False\<close> from
  there on: it says that every call so far stayed within what is modelled. The refusals
  that depend only on an inherited member being truthy are modelled.
\<close>

record file_obj =
  index :: int
  name :: string
  data :: jsval
  selected :: jsval
  flags :: writer

datatype path = FilePath int string

text \<open>
  The trace of what the store asked for, in call order: each entry into \<^verbatim>\<open>_writeProperties\<close>
  and \<^verbatim>\<open>_writeFile\<close>, and each call of the file system. The code keeps no such list; it
  is what "scheduling a persistence" leaves behind.
\<close>

datatype fs_call =
    ReqProperties
  | ReqFile string
  | FsWriteFile path jsval
  | FsOutputJson "(string \<times> jsval) list"
  | FsUnlink path
  | FsRename path path

record storage =
  maxIndex :: int
  files :: "(string \<times> nat) list"
  properties :: "(string \<times> jsval) list"
  heap :: "file_obj list"
  propsFlags :: writer
  calls :: "fs_call list"
  modelled :: bool

text \<open>\<^verbatim>\<open>_getFilePath\<close>: the slot of a record is named by its index and its (encoded) name.\<close>

definition getFilePath :: "file_obj \<Rightarrow> path" where
  "getFilePath f = FilePath (index f) (name f)"

definition writeProperties_priv :: "storage \<Rightarrow> storage" where
  "writeProperties_priv s =
     (let (w, go) = persist (propsFlags s)
      in s\<lparr>propsFlags := w,
            calls := calls s @ ReqProperties # (if go then [FsOutputJson (properties s)] else [])\<rparr>)"

definition writeFile_priv :: "string \<Rightarrow> storage \<Rightarrow> storage" where
  "writeFile_priv file s =
     (case table_get (files s) file of
        Absent \<Rightarrow> s\<lparr>calls := calls s @ [ReqFile file]\<rparr>
      | Inherited \<Rightarrow> s\<lparr>calls := calls s @ [ReqFile file], modelled := False\<rparr>
      | Own r \<Rightarrow>
          (let f = heap s ! r;
               (w, go) = persist (flags f)
           in s\<lparr>heap := (heap s)[r := f\<lparr>flags := w\<rparr>],
                 calls := calls s @ ReqFile file #
                            (if go then [FsWriteFile (getFilePath f) (data f)] else [])\<rparr>))"

definition filesOrder :: "storage \<Rightarrow> jsval" where
  "filesOrder s =
     (case map_of (properties s) ''filesOrder'' of None \<Rightarrow> JUndefined | Some v \<Rightarrow> v)"

definition set_filesOrder :: "jsval list \<Rightarrow> storage \<Rightarrow> storage" where
  "set_filesOrder xs s =
     s\<lparr>properties := AList.update ''filesOrder'' (JArr xs) (properties s)\<rparr>"

definition count :: "storage \<Rightarrow> nat" where
  "count s = length (object_keys (files s))"

definition existsFile :: "name_arg \<Rightarrow> storage \<Rightarrow> nat found" where
  "existsFile file s = table_get (files s) (key_of file)"

text \<open>
  \<^verbatim>\<open>copyFileObj\<close> passes a falsy argument through and otherwise allocates a new object
  with the four fields \<^verbatim>\<open>index\<close>, \<^verbatim>\<open>name\<close>, \<^verbatim>\<open>data\<close> and \<^verbatim>\<open>selected\<close>; \<open>copied\<close> is the object
  literal of lines 36-41, which has none of the flags.
\<close>

definition copied :: "file_obj \<Rightarrow> file_obj" where
  "copied f =
     \<lparr>index = index f, name = name f, data = data f, selected = selected f, flags = idle\<rparr>"

definition copyFileObj :: "nat option \<Rightarrow> file_obj list \<Rightarrow> nat option \<times> file_obj list" where
  "copyFileObj file h =
     (case file of
        None \<Rightarrow> (None, h)
      | Some r \<Rightarrow> (Some (length h), h @ [copied (h ! r)]))"

fun copy_all :: "nat option list \<Rightarrow> file_obj list \<Rightarrow> nat option list \<times> file_obj list" where
  "copy_all [] h = ([], h)"
| "copy_all (file # rest) h =
     (let (c, h1) = copyFileObj file h;
          (cs, h2) = copy_all rest h1
      in (c # cs, h2))"

definition getFileList :: "bool \<Rightarrow> storage \<Rightarrow> nat option list outcome \<times> storage" where
  "getFileList origObj s =
     (case filesOrder s of
        JArr order \<Rightarrow>
          (let looked = map (\<lambda>file. table_get (files s) (ToString file)) order
           in if Inherited \<in> set looked then (Unmodelled, s\<lparr>modelled := False\<rparr>)
              else
                (let found = map (\<lambda>l. case l of Own r \<Rightarrow> Some r | _ \<Rightarrow> None) looked
                 in if origObj then (Returned found, s)
                    else (let (cs, h) = copy_all found (heap s)
                          in (Returned cs, s\<lparr>heap := h\<rparr>))))
      | _ \<Rightarrow> (Threw TypeError, s))"

definition writeFile :: "name_arg \<Rightarrow> jsval \<Rightarrow> storage \<Rightarrow> nat option outcome \<times> storage" where
  "writeFile file dat s =
     (if \<not> truthy_name file then (Returned None, s)
      else
        (let k = key_of file;
             d = (if dat = JNull \<or> dat = JUndefined then JStr [] else dat)
         in case table_get (files s) k of
              Own r \<Rightarrow>
                (Returned (Some r),
                 writeFile_priv k (s\<lparr>heap := (heap s)[r := (heap s ! r)\<lparr>data := d\<rparr>]\<rparr>))
            | Inherited \<Rightarrow> (Unmodelled, s\<lparr>modelled := False\<rparr>)
            | Absent \<Rightarrow>
                (let r = length (heap s);
                     s1 = s\<lparr>maxIndex := js_inc (maxIndex s),
                            heap := heap s @ [\<lparr>index = js_inc (maxIndex s), name = k,
                                               data = JUndefined, selected = JUndefined,
                                               flags = idle\<rparr>],
                            files := AList.update k r (files s)\<rparr>
                 in case filesOrder s1 of
                      JArr order \<Rightarrow>
                        (let s2 = writeProperties_priv (set_filesOrder (order @ [val_of file]) s1);
                             s3 = s2\<lparr>heap := (heap s2)[r := (heap s2 ! r)\<lparr>data := d\<rparr>]\<rparr>
                         in (Returned (Some r), writeFile_priv k s3))
                    | _ \<Rightarrow> (Threw TypeError, s1))))"

definition updateFile :: "name_arg \<Rightarrow> jsval \<Rightarrow> storage \<Rightarrow> nat option outcome \<times> storage" where
  "updateFile file dat s =
     (case existsFile file s of
        Absent \<Rightarrow> (Returned None, s)
      | _ \<Rightarrow> writeFile file dat s)"

definition readFile :: "name_arg \<Rightarrow> storage \<Rightarrow> jsval outcome" where
  "readFile file s =
     (if \<not> truthy_name file then Returned (val_of file)
      else case table_get (files s) (key_of file) of
             Absent \<Rightarrow> Returned JUndefined
           | Inherited \<Rightarrow> Unmodelled
           | Own r \<Rightarrow> Returned (data (heap s ! r)))"

definition removeFile :: "name_arg \<Rightarrow> storage \<Rightarrow> jsval outcome \<times> storage" where
  "removeFile file s =
     (if \<not> truthy_name file then (Returned JUndefined, s)
      else case table_get (files s) (key_of file) of
             Absent \<Rightarrow> (Returned JUndefined, s)
           | Inherited \<Rightarrow> (Unmodelled, s\<lparr>modelled := False\<rparr>)
           | Own r \<Rightarrow>
               (let f = heap s ! r
                in case filesOrder s of
                     JArr order \<Rightarrow>
                       (let s1 = set_filesOrder (splice (indexOf order (JStr (name f))) 1 [] order) s;
                            s2 = s1\<lparr>files := AList.delete (name f) (files s1)\<rparr>;
                            s3 = s2\<lparr>calls := calls s2 @ [FsUnlink (getFilePath f)]\<rparr>
                        in (Returned (JBool True), writeProperties_priv s3))
                   | _ \<Rightarrow> (Threw TypeError, s)))"

definition renameFile :: "name_arg \<Rightarrow> name_arg \<Rightarrow> storage \<Rightarrow> jsval outcome \<times> storage" where
  "renameFile file newFile s =
     (if \<not> truthy_name newFile then (Returned JUndefined, s)
      else case table_get (files s) (key_of file) of
             Absent \<Rightarrow> (Returned JUndefined, s)
           | Inherited \<Rightarrow>
               (if table_get (files s) (key_of newFile) \<noteq> Absent then (Returned JUndefined, s)
                else (Unmodelled, s\<lparr>modelled := False\<rparr>))
           | Own r \<Rightarrow>
               (if table_get (files s) (key_of newFile) \<noteq> Absent then (Returned JUndefined, s)
                else
                  (let f = heap s ! r;
                       renamed =
                         (\<lambda>s1.
                            (let s2 = s1\<lparr>files := AList.delete (name f) (files s1)\<rparr>;
                                 f' = f\<lparr>name := key_of newFile\<rparr>;
                                 s3 = s2\<lparr>heap := (heap s2)[r := f']\<rparr>;
                                 s4 = s3\<lparr>files := AList.update (key_of newFile) r (files s3)\<rparr>;
                                 s5 = s4\<lparr>calls := calls s4 @ [FsRename (getFilePath f) (getFilePath f')]\<rparr>
                             in (Returned (JBool True), writeProperties_priv s5)))
                   in case filesOrder s of
                        JArr order \<Rightarrow>
                          (let i = indexOf order (JStr (name f))
                           in renamed (if i < 0 then s
                                       else set_filesOrder (order[nat i := val_of newFile]) s))
                      | JStr str \<Rightarrow> renamed s
                      | _ \<Rightarrow> (Threw TypeError, s))))"

definition moveTo :: "name_arg \<Rightarrow> name_arg \<Rightarrow> storage \<Rightarrow> jsval outcome \<times> storage" where
  "moveTo fromName toName s =
     (case filesOrder s of
        JArr order \<Rightarrow>
          (let fromIndex = indexOf order (val_of fromName)
           in if fromIndex = - 1 then (Returned (JBool False), s)
              else
                (let toIndex = indexOf order (val_of toName)
                 in if toIndex = - 1 then (Returned (JBool False), s)
                    else
                      (let order1 = splice fromIndex 1 [] order;
                           order2 = splice toIndex 0 [val_of fromName] order1
                       in (Returned (JBool True),
                           writeProperties_priv (set_filesOrder order2 s)))))
      | JStr str \<Rightarrow>
          (if str_indexOf str (key_of fromName) = - 1 then (Returned (JBool False), s)
           else if str_indexOf str (key_of toName) = - 1 then (Returned (JBool False), s)
           else (Threw TypeError, s))
      | _ \<Rightarrow> (Threw TypeError, s))"

text \<open>
  \<^verbatim>\<open>properties[name] = value\<close>. Under the name \<^verbatim>\<open>__proto__\<close>, unless the map has a key of
  its own by that name (\<^verbatim>\<open>JSON.parse\<close> creates one), the assignment runs the inherited
  setter: it ignores a primitive value and otherwise replaces the prototype of the map.
\<close>

definition assign_property :: "string \<Rightarrow> jsval \<Rightarrow> storage \<Rightarrow> storage" where
  "assign_property nm v s =
     (if nm = ''__proto__'' \<and> map_of (properties s) nm = None
      then (case v of
              JNull \<Rightarrow> s\<lparr>modelled := False\<rparr>
            | JArr xs \<Rightarrow> s\<lparr>modelled := False\<rparr>
            | JObj kvs \<Rightarrow> s\<lparr>modelled := False\<rparr>
            | _ \<Rightarrow> s)
      else s\<lparr>properties := AList.update nm v (properties s)\<rparr>)"

definition setProperty :: "string \<Rightarrow> jsval \<Rightarrow> storage \<Rightarrow> storage" where
  "setProperty nm v s = writeProperties_priv (assign_property nm v s)"

definition hasProperty :: "string \<Rightarrow> storage \<Rightarrow> bool" where
  "hasProperty nm s = (table_get (properties s) nm \<noteq> Absent)"

definition setProperties :: "(string \<times> jsval) list option \<Rightarrow> storage \<Rightarrow> jsval \<times> storage" where
  "setProperties obj s =
     (case obj of
        None \<Rightarrow> (JUndefined, s)
      | Some kvs \<Rightarrow>
          (JBool True, writeProperties_priv (fold (\<lambda>(k, v). assign_property k v) kvs s)))"

definition getProperty :: "string \<Rightarrow> storage \<Rightarrow> jsval found" where
  "getProperty nm s = table_get (properties s) nm"

definition removeProperty :: "string \<Rightarrow> storage \<Rightarrow> storage" where
  "removeProperty nm s =
     (if hasProperty nm s \<and> nm \<noteq> ''filesOrder''
      then writeProperties_priv (s\<lparr>properties := AList.delete nm (properties s)\<rparr>)
      else s)"

section \<open>Bootstrap\<close>

text \<open>
  \<^verbatim>\<open>readFileSafe\<close> and \<^verbatim>\<open>readJsonSafe\<close> take what \<^verbatim>\<open>fs.readFileSync\<close> did (it returned
  the content or threw) and, for the JSON document, what \<^verbatim>\<open>JSON.parse\<close> does on a text.
  The \<^verbatim>\<open>catch\<close> block sets the value to \<^verbatim>\<open>null\<close> and logs the exception; the second
  component is what was logged.
\<close>

definition readFileSafe :: "string attempt \<Rightarrow> jsval outcome \<times> exn list" where
  "readFileSafe readFileSync =
     (let (file, logged) =
            (case readFileSync of
               Raised e \<Rightarrow> (JNull, [e])
             | Gave content \<Rightarrow> (JStr content, []))
      in (Returned (if truthy file then file else JStr []), logged))"

definition readJsonSafe ::
  "(string \<Rightarrow> jsval attempt) \<Rightarrow> string attempt \<Rightarrow> jsval outcome \<times> exn list" where
  "readJsonSafe JSON_parse readFileSync =
     (let (file, logged) =
            (case readFileSync of
               Raised e \<Rightarrow> (JNull, [e])
             | Gave content \<Rightarrow>
                 (if content = [] then (JStr content, [])
                  else case JSON_parse content of
                         Raised e \<Rightarrow> (JNull, [e])
                       | Gave v \<Rightarrow> (v, [])))
      in (Returned (if truthy file then file else JObj []), logged))"

text \<open>
  The scan of the \<^verbatim>\<open>files\<close> directory (lines 59-79), over the entries that matched
  the pattern of an index, a dot and a non-empty encoded name, and whose name decoded:
  each comes with its parsed index, its decoded name and the body \<^verbatim>\<open>readFileSafe\<close>
  returned. Entries that do not match, or whose name does not decode, are skipped by the
  code and are not in the list.

  The fourth component of the accumulator says that no entry so far was named
  \<^verbatim>\<open>__proto__\<close>: \<^verbatim>\<open>files['__proto__'] = record\<close> adds no key and makes the record the prototype
  of the table. Every other name, inherited ones included, becomes a key of the table.
\<close>

definition scan_entry ::
  "int \<times> string \<times> jsval \<Rightarrow> int \<times> (string \<times> nat) list \<times> file_obj list \<times> bool
     \<Rightarrow> int \<times> (string \<times> nat) list \<times> file_obj list \<times> bool" where
  "scan_entry entry acc =
     (case (entry, acc) of
        ((idx, filename, body), (mi, fs, h, ok)) \<Rightarrow>
          (if idx > mi then idx else mi,
           if filename = ''__proto__'' then fs else AList.update filename (length h) fs,
           h @ [\<lparr>index = idx, name = filename, data = body, selected = JUndefined,
                 flags = idle\<rparr>],
           ok \<and> filename \<noteq> ''__proto__''))"

text \<open>
  The comparator of lines 92-105. \<open>persisted\<close> is the \<^verbatim>\<open>filesOrder\<close> of the properties
  document when it is an array, and \<open>None\<close> (the code's \<^verbatim>\<open>null\<close>) otherwise. The sort
  calls the comparator on keys of the table only.
\<close>

definition file_index :: "storage \<Rightarrow> string \<Rightarrow> int" where
  "file_index cache file = index (heap cache ! the (map_of (files cache) file))"

definition order_cmp :: "jsval list option \<Rightarrow> storage \<Rightarrow> string \<Rightarrow> string \<Rightarrow> int" where
  "order_cmp persisted cache cur next =
     (let byIndex = (if file_index cache cur > file_index cache next then 1 else - 1)
      in case persisted of
           None \<Rightarrow> byIndex
         | Some order \<Rightarrow>
             (let curIndex = indexOf order (JStr cur)
              in if curIndex \<noteq> - 1
                 then (let nextIndex = indexOf order (JStr next)
                       in if nextIndex \<noteq> - 1
                          then (if curIndex > nextIndex then 1 else - 1)
                          else byIndex)
                 else byIndex))"

text \<open>
  \<^verbatim>\<open>Array.prototype.sort\<close> is the engine's, not the program's, so the constructor is
  modelled over any sort \<open>srt\<close>, and what is proved of the constructor is proved from
  what every engine's sort does. It returns the elements it was given, each as often as
  it was given. On elements that a consistent comparator orders strictly it returns them
  in that order; for another comparator ECMAScript leaves the order to the engine. The
  comparator of lines 92-105 never answers \<^verbatim>\<open>0\<close>, also not for a name and itself; the keys
  of the table differ from each other, a sort compares elements at different places, and
  so the comparator counts as consistent when it orders the different keys strictly:
  \<open>strict_order_on\<close>. \<open>ordered_by cmp xs\<close> says that \<open>cmp\<close> puts every element of \<open>xs\<close> before
  each later one.
\<close>

definition strict_order_on :: "('a \<Rightarrow> 'a \<Rightarrow> int) \<Rightarrow> 'a list \<Rightarrow> bool" where
  "strict_order_on cmp xs =
     ((\<forall>a \<in> set xs. \<forall>b \<in> set xs. a \<noteq> b \<longrightarrow> cmp a b \<noteq> 0 \<and> (cmp a b < 0 \<longleftrightarrow> cmp b a > 0)) \<and>
      (\<forall>a \<in> set xs. \<forall>b \<in> set xs. \<forall>c \<in> set xs.
         a \<noteq> b \<and> b \<noteq> c \<and> a \<noteq> c \<and> cmp a b < 0 \<and> cmp b c < 0 \<longrightarrow> cmp a c < 0))"

definition ordered_by :: "('a \<Rightarrow> 'a \<Rightarrow> int) \<Rightarrow> 'a list \<Rightarrow> bool" where
  "ordered_by cmp xs = sorted_wrt (\<lambda>a b. cmp a b < 0) xs"

definition sort_contract ::
  "((string \<Rightarrow> string \<Rightarrow> int) \<Rightarrow> string list \<Rightarrow> string list) \<Rightarrow> bool" where
  "sort_contract srt =
     (\<forall>cmp xs.
        set (srt cmp xs) = set xs \<and> length (srt cmp xs) = length xs \<and>
        (distinct xs \<and> strict_order_on cmp xs \<longrightarrow> ordered_by cmp (srt cmp xs)))"

text \<open>
  One sort that does this, used to run the constructor on examples: insertion sort, where
  each element moves left past the elements the comparator puts after it. \<open>insert_rev\<close>
  works on the sorted prefix in reverse.
\<close>

fun insert_rev :: "('a \<Rightarrow> 'a \<Rightarrow> int) \<Rightarrow> 'a \<Rightarrow> 'a list \<Rightarrow> 'a list" where
  "insert_rev cmp x [] = [x]"
| "insert_rev cmp x (p # ps) = (if cmp p x > 0 then p # insert_rev cmp x ps else x # p # ps)"

definition insertion_sort :: "('a \<Rightarrow> 'a \<Rightarrow> int) \<Rightarrow> 'a list \<Rightarrow> 'a list" where
  "insertion_sort cmp xs = rev (foldl (\<lambda>acc x. insert_rev cmp x acc) [] xs)"

definition persisted_order :: "(string \<times> jsval) list \<Rightarrow> jsval list option" where
  "persisted_order props =
     (case map_of props ''filesOrder'' of Some (JArr order) \<Rightarrow> Some order | _ \<Rightarrow> None)"

definition bootstrap_order ::
  "((string \<Rightarrow> string \<Rightarrow> int) \<Rightarrow> string list \<Rightarrow> string list)
     \<Rightarrow> jsval list option \<Rightarrow> storage \<Rightarrow> string list \<Rightarrow> string list" where
  "bootstrap_order srt persisted cache keys = srt (order_cmp persisted cache) keys"

text \<open>
  The constructor, from the scanned entries and the value \<^verbatim>\<open>readJsonSafe\<close> returned for the
  properties document. That value is truthy; it is the property map when it is an
  object. A document that holds an array, a number, \<^verbatim>\<open>true\<close> or a string is valid JSON
  too: the cache then keeps that value as its \<^verbatim>\<open>properties\<close>, which no state here
  describes (an assignment to a property of a primitive value is dropped). \<open>scanned\<close> is
  the cache of lines 82-86, before the order is computed.
\<close>

definition property_map :: "jsval \<Rightarrow> (string \<times> jsval) list option" where
  "property_map doc = (case doc of JObj kvs \<Rightarrow> Some kvs | _ \<Rightarrow> None)"

definition scanned :: "(int \<times> string \<times> jsval) list \<Rightarrow> jsval \<Rightarrow> storage" where
  "scanned entries doc =
     (case fold scan_entry entries (- 1, [], [], True) of
        (mi, fs, h, ok) \<Rightarrow>
          \<lparr>maxIndex = mi, files = fs,
           properties = (case property_map doc of Some kvs \<Rightarrow> kvs | None \<Rightarrow> []),
           heap = h, propsFlags = idle, calls = [],
           modelled = (ok \<and> property_map doc \<noteq> None)\<rparr>)"

definition Storage ::
  "((string \<Rightarrow> string \<Rightarrow> int) \<Rightarrow> string list \<Rightarrow> string list)
     \<Rightarrow> (int \<times> string \<times> jsval) list \<Rightarrow> jsval \<Rightarrow> storage" where
  "Storage srt entries doc =
     (let cache = scanned entries doc;
          order = bootstrap_order srt (persisted_order (properties cache)) cache
                    (object_keys (files cache))
      in setProperty ''filesOrder'' (JArr (map JStr order)) cache)"

section \<open>Invariants of the cache\<close>

text \<open>
  \<open>recordsInv\<close>: the table has each key once, and a key leads to a live record that
  carries the key as its \<^verbatim>\<open>name\<close> and an index the counter has passed.
  \<open>orderInv\<close>: the property \<^verbatim>\<open>filesOrder\<close> is an array holding each key of the table once
  and nothing else.
  JavaScript has no dangling reference, so a reference of the table always leads to a
  record; here that is part of \<open>recordsInv\<close>, and a statement that reads a record
  assumes it.
\<close>

definition recordsInv :: "storage \<Rightarrow> bool" where
  "recordsInv s =
     (distinct (map fst (files s)) \<and>
      list_all (\<lambda>(n, r). r < length (heap s) \<and> name (heap s ! r) = n \<and>
                           index (heap s ! r) \<le> maxIndex s) (files s))"

definition orderInv :: "storage \<Rightarrow> bool" where
  "orderInv s =
     (case filesOrder s of
        JArr order \<Rightarrow> distinct order \<and> set order = set (map (\<lambda>(n, r). JStr n) (files s))
      | _ \<Rightarrow> False)"

section \<open>Calls and runs\<close>

datatype api =
    WriteFile name_arg jsval
  | UpdateFile name_arg jsval
  | RemoveFile name_arg
  | RenameFile name_arg name_arg
  | MoveTo name_arg name_arg
  | GetFileList bool
  | SetProperty string jsval
  | SetProperties "(string \<times> jsval) list option"
  | RemoveProperty string

fun exec :: "api \<Rightarrow> storage \<Rightarrow> storage" where
  "exec (WriteFile file dat) s = snd (writeFile file dat s)"
| "exec (UpdateFile file dat) s = snd (updateFile file dat s)"
| "exec (RemoveFile file) s = snd (removeFile file s)"
| "exec (RenameFile file newFile) s = snd (renameFile file newFile s)"
| "exec (MoveTo fromName toName) s = snd (moveTo fromName toName s)"
| "exec (GetFileList origObj) s = snd (getFileList origObj s)"
| "exec (SetProperty nm v) s = setProperty nm v s"
| "exec (SetProperties obj) s = snd (setProperties obj s)"
| "exec (RemoveProperty nm) s = removeProperty nm s"

text \<open>
  The index a call assigns: that of the record \<^verbatim>\<open>writeFile\<close> returns, when the record did
  not exist before the call.
\<close>

definition fresh_index :: "storage \<Rightarrow> nat option outcome \<times> storage \<Rightarrow> int list" where
  "fresh_index s res =
     (case res of
        (Returned (Some r), s') \<Rightarrow> (if length (heap s) \<le> r then [index (heap s' ! r)] else [])
      | _ \<Rightarrow> [])"

fun assigned :: "api \<Rightarrow> storage \<Rightarrow> int list" where
  "assigned (WriteFile file dat) s = fresh_index s (writeFile file dat s)"
| "assigned (UpdateFile file dat) s = fresh_index s (updateFile file dat s)"
| "assigned _ s = []"

fun run :: "api list \<Rightarrow> storage \<Rightarrow> int list \<times> storage" where
  "run [] s = ([], s)"
| "run (a # as) s = (let (is, s') = run as (exec a s) in (assigned a s @ is, s'))"

fun immediately_before :: "'a \<Rightarrow> 'a \<Rightarrow> 'a list \<Rightarrow> bool" where
  "immediately_before x y (a # b # rest) = ((a = x \<and> b = y) \<or> immediately_before x y (b # rest))"
| "immediately_before x y _ = False"

text \<open>The calls that assign the property \<^verbatim>\<open>filesOrder\<close> from outside.\<close>

fun assigns_filesOrder :: "api \<Rightarrow> bool" where
  "assigns_filesOrder (SetProperty nm v) = (nm = ''filesOrder'')"
| "assigns_filesOrder (SetProperties (Some kvs)) = (''filesOrder'' \<in> fst ` set kvs)"
| "assigns_filesOrder _ = False"

section \<open>One persisted unit\<close>

text \<open>
  A unit is the properties document or the body of one file: its value in memory, its
  content on disk (\<open>None\<close> before the first write lands), its flags, and the writes handed
  to the file system that have not called back yet, each with the value it was given.
  \<open>unit_write\<close> is the body of \<^verbatim>\<open>_writeProperties\<close> / \<^verbatim>\<open>_writeFile\<close> after the lookup of the
  record, \<open>unit_callback\<close> the callback passed to \<^verbatim>\<open>fse.outputJson\<close> / \<^verbatim>\<open>fs.writeFile\<close>.
  \<^verbatim>\<open>fs.writeFile\<close> is handed the body itself; \<^verbatim>\<open>fse.outputJson\<close> is handed the property map
  and is taken to serialise it when it is called. The file stays in the table under its
  name while the unit is observed.
\<close>

record 'v punit =
  memory :: 'v
  disk :: "'v option"
  unitFlags :: writer
  inflight :: "'v list"

definition unit_write :: "'v punit \<Rightarrow> 'v punit" where
  "unit_write u =
     (let (w, go) = persist (unitFlags u)
      in u\<lparr>unitFlags := w, inflight := (if go then inflight u @ [memory u] else inflight u)\<rparr>)"

definition unit_callback :: "bool \<Rightarrow> 'v punit \<Rightarrow> 'v punit" where
  "unit_callback err u =
     (let u1 = u\<lparr>unitFlags := (unitFlags u)\<lparr>pending := False\<rparr>\<rparr>
      in if waiting (unitFlags u1)
         then unit_write (u1\<lparr>unitFlags := (unitFlags u1)\<lparr>waiting := False\<rparr>\<rparr>)
         else if err then u1\<lparr>unitFlags := (unitFlags u1)\<lparr>timeout := True\<rparr>\<rparr>
         else u1)"

text \<open>
  What can happen to a unit: a mutator stores a value and requests persistence; the oldest
  write in flight succeeds, or fails leaving some content on disk; the retry timer fires.
  An event that cannot happen in a state (no write in flight, no timer armed) yields
  \<open>None\<close>.
\<close>

datatype 'v event = Request 'v | WriteOk | WriteFailed "'v option" | TimerFired

fun step :: "'v event \<Rightarrow> 'v punit \<Rightarrow> 'v punit option" where
  "step (Request v) u = Some (unit_write (u\<lparr>memory := v\<rparr>))"
| "step WriteOk u =
     (case inflight u of
        [] \<Rightarrow> None
      | v # rest \<Rightarrow> Some (unit_callback False (u\<lparr>disk := Some v, inflight := rest\<rparr>)))"
| "step (WriteFailed d) u =
     (case inflight u of
        [] \<Rightarrow> None
      | v # rest \<Rightarrow> Some (unit_callback True (u\<lparr>disk := d, inflight := rest\<rparr>)))"
| "step TimerFired u =
     (if timeout (unitFlags u)
      then Some (unit_write (u\<lparr>unitFlags := (unitFlags u)\<lparr>timeout := False\<rparr>\<rparr>))
      else None)"






section \<open>Frame properties of the simple operations\<close>

text \<open>
  C10. A call of \<^verbatim>\<open>writeFile\<close> with a falsy name (that is: \<^verbatim>\<open>undefined\<close>, \<^verbatim>\<open>null\<close> or the
  empty string) returns no record, in every state and for every data value, and the state
  after the call is the state before it: the file table, the counter, \<^verbatim>\<open>filesOrder\<close>, the
  property map, every flag and the trace of persistence requests and file-system calls.
\<close>

theorem writeFile_falsy_name:
  "(\<not> truthy_name nm \<longleftrightarrow> nm = ArgUndefined \<or> nm = ArgNull \<or> nm = ArgStr []) \<and>
   (\<not> truthy_name nm \<longrightarrow> writeFile nm dat s = (Returned None, s))"
  by (cases nm) (simp_all add: truthy_name_def writeFile_def)



theorem writeFile_falsy_name_witness:
  "\<not> truthy_name (ArgStr []) \<and>
   writeFile (ArgStr []) (JStr ''x'') (Storage insertion_sort [(0, ''a'', JStr ''hello'')] (JObj [])) =
     (Returned None, Storage insertion_sort [(0, ''a'', JStr ''hello'')] (JObj []))"
  using writeFile_falsy_name [of "ArgStr []" "JStr ''x''"
      "Storage insertion_sort [(0, ''a'', JStr ''hello'')] (JObj [])"]
  by (simp add: truthy_name_def)

text \<open>
  C9. \<^verbatim>\<open>removeProperty('filesOrder')\<close> leaves the whole state, and so the property map, as
  it was. For any other key the property map afterwards is the old one without that key:
  the key is gone and every other key keeps its value. For a key that is absent the
  property map is unchanged. The whole state is unchanged too when the absent name is not
  one that the map inherits from \<^verbatim>\<open>Object.prototype\<close>; for such a name \<^verbatim>\<open>hasProperty\<close>
  answers \<^verbatim>\<open>true\<close>, nothing is deleted and a write of the properties is requested.
\<close>

theorem removeProperty_frame:
  "removeProperty ''filesOrder'' s = s \<and>
   (map_of (properties s) nm = None \<longrightarrow>
      properties (removeProperty nm s) = properties s \<and>
      (nm \<notin> set inherited_names \<longrightarrow> removeProperty nm s = s) \<and>
      (nm \<in> set inherited_names \<longrightarrow> removeProperty nm s = writeProperties_priv s)) \<and>
   (nm \<noteq> ''filesOrder'' \<longrightarrow>
      properties (removeProperty nm s) = AList.delete nm (properties s) \<and>
      map_of (properties (removeProperty nm s)) nm = None \<and>
      (\<forall>k. k \<noteq> nm \<longrightarrow> map_of (properties (removeProperty nm s)) k = map_of (properties s) k))"
proof -
  have absent: "AList.delete nm (properties s) = properties s" if "map_of (properties s) nm = None"
    using that by (simp add: map_of_eq_None_iff)
  have wp: "properties (writeProperties_priv t) = properties t" for t
    by (simp add: writeProperties_priv_def split: prod.splits)
  have inh: "''filesOrder'' \<notin> set inherited_names" by (simp add: inherited_names_def)
  have same: "s\<lparr>properties := properties s\<rparr> = s" by simp
  show ?thesis
  proof (intro conjI impI allI)
    show "removeProperty ''filesOrder'' s = s" by (simp add: removeProperty_def)
  next
    assume "map_of (properties s) nm = None"
    then show "properties (removeProperty nm s) = properties s"
      by (simp add: removeProperty_def wp absent)
  next
    assume "map_of (properties s) nm = None" and "nm \<notin> set inherited_names"
    then show "removeProperty nm s = s"
      by (simp add: removeProperty_def hasProperty_def table_get_def)
  next
    assume "map_of (properties s) nm = None" and "nm \<in> set inherited_names"
    then show "removeProperty nm s = writeProperties_priv s"
      using inh by (auto simp: removeProperty_def hasProperty_def table_get_def absent)
  next
    assume "nm \<noteq> ''filesOrder''"
    show "properties (removeProperty nm s) = AList.delete nm (properties s)"
    proof (cases "map_of (properties s) nm")
      case None
      then show ?thesis by (simp add: removeProperty_def wp absent)
    next
      case (Some v)
      then show ?thesis
        using \<open>nm \<noteq> ''filesOrder''\<close> by (simp add: removeProperty_def hasProperty_def table_get_def wp)
    qed
    then show "map_of (properties (removeProperty nm s)) nm = None"
      by (simp add: delete_conv')
    fix k assume "k \<noteq> nm"
    with \<open>properties (removeProperty nm s) = AList.delete nm (properties s)\<close>
    show "map_of (properties (removeProperty nm s)) k = map_of (properties s) k"
      by (simp add: delete_conv')
  qed
qed

theorem removeProperty_frame_witness:
  "removeProperty ''filesOrder''
     (Storage insertion_sort [] (JObj [(''theme'', JStr ''dark''), (''size'', JNum 3)])) =
     Storage insertion_sort [] (JObj [(''theme'', JStr ''dark''), (''size'', JNum 3)]) \<and>
   ''theme'' \<noteq> ''filesOrder'' \<and>
   properties (removeProperty ''theme''
     (Storage insertion_sort [] (JObj [(''theme'', JStr ''dark''), (''size'', JNum 3)]))) =
     [(''size'', JNum 3), (''filesOrder'', JArr [])] \<and>
   map_of (properties (Storage insertion_sort [] (JObj [(''theme'', JStr ''dark''), (''size'', JNum 3)])))
     ''absent'' = None \<and>
   ''absent'' \<notin> set inherited_names \<and>
   removeProperty ''absent''
     (Storage insertion_sort [] (JObj [(''theme'', JStr ''dark''), (''size'', JNum 3)])) =
     Storage insertion_sort [] (JObj [(''theme'', JStr ''dark''), (''size'', JNum 3)]) \<and>
   map_of (properties (Storage insertion_sort [] (JObj [(''theme'', JStr ''dark''), (''size'', JNum 3)])))
     ''toString'' = None \<and>
   ''toString'' \<in> set inherited_names \<and>
   properties (removeProperty ''toString''
     (Storage insertion_sort [] (JObj [(''theme'', JStr ''dark''), (''size'', JNum 3)]))) =
     [(''theme'', JStr ''dark''), (''size'', JNum 3), (''filesOrder'', JArr [])]"
  using removeProperty_frame [of "Storage insertion_sort [] (JObj [(''theme'', JStr ''dark''), (''size'', JNum 3)])" "''theme''"]
    removeProperty_frame [of "Storage insertion_sort [] (JObj [(''theme'', JStr ''dark''), (''size'', JNum 3)])" "''absent''"]
    removeProperty_frame [of "Storage insertion_sort [] (JObj [(''theme'', JStr ''dark''), (''size'', JNum 3)])" "''toString''"]
  by (simp add: Storage_def scanned_def property_map_def setProperty_def assign_property_def
        writeProperties_priv_def persist_def idle_def bootstrap_order_def insertion_sort_def
        inherited_names_def object_keys_def)

text \<open>
  C7. The two load routines of the bootstrap return a value whatever the read did, and
  never throw: when \<^verbatim>\<open>fs.readFileSync\<close> throws (the file is missing or unreadable) a file
  body is the empty string and the properties are the empty map, and when \<^verbatim>\<open>JSON.parse\<close>
  throws on the text of the properties document the properties are the empty map.
\<close>

theorem readSafe_never_throws:
  "fst (readFileSafe (Raised e)) = Returned (JStr []) \<and>
   (\<exists>v. fst (readFileSafe r) = Returned v) \<and>
   fst (readJsonSafe JSON_parse (Raised e)) = Returned (JObj []) \<and>
   (JSON_parse content = Raised e \<longrightarrow>
      fst (readJsonSafe JSON_parse (Gave content)) = Returned (JObj [])) \<and>
   (\<exists>v. fst (readJsonSafe JSON_parse r) = Returned v)"
  by (auto simp: readFileSafe_def readJsonSafe_def split: attempt.splits prod.splits)

theorem readSafe_never_throws_witness:
  "(\<lambda>c. if c = ''{}'' then Gave (JObj []) else Raised SyntaxError) ''{oops'' = Raised SyntaxError \<and>
   fst (readJsonSafe (\<lambda>c. if c = ''{}'' then Gave (JObj []) else Raised SyntaxError)
          (Gave ''{oops'')) = Returned (JObj [])"
  using readSafe_never_throws [where JSON_parse = "\<lambda>c. if c = ''{}'' then Gave (JObj []) else Raised SyntaxError"
      and content = "''{oops''" and e = SyntaxError]
  by simp


section \<open>Facts about arrays\<close>

lemma indexOf_ge: "- 1 \<le> indexOf xs v"
  by (induction xs) (auto simp: Let_def)

lemma indexOf_absent: "indexOf xs v = - 1 \<longleftrightarrow> v \<notin> set xs"
proof (induction xs)
  case Nil
  show ?case by simp
next
  case (Cons x xs)
  have "- 1 \<le> indexOf xs v" by (rule indexOf_ge)
  with Cons show ?case by (auto simp: Let_def)
qed

lemma indexOf_present:
  "v \<in> set xs \<Longrightarrow> 0 \<le> indexOf xs v \<and> nat (indexOf xs v) < length xs \<and> xs ! nat (indexOf xs v) = v"
proof (induction xs)
  case Nil
  then show ?case by simp
next
  case (Cons x xs)
  show ?case
  proof (cases "x = v")
    case True
    then show ?thesis by simp
  next
    case False
    with Cons.prems have in_tl: "v \<in> set xs" by simp
    from Cons.IH [OF in_tl] have ih: "0 \<le> indexOf xs v" "nat (indexOf xs v) < length xs"
      "xs ! nat (indexOf xs v) = v" by simp_all
    from ih(1) have ne: "indexOf xs v \<noteq> - 1" by simp
    have "nat (indexOf xs v + 1) = Suc (nat (indexOf xs v))" using ih(1) by simp
    with False ne ih show ?thesis by (simp add: Let_def)
  qed
qed

lemma indexOf_nth_distinct:
  "distinct xs \<Longrightarrow> i < length xs \<Longrightarrow> indexOf xs (xs ! i) = int i"
proof (induction xs arbitrary: i)
  case Nil
  then show ?case by simp
next
  case (Cons x xs)
  show ?case
  proof (cases i)
    case 0
    then show ?thesis by simp
  next
    case (Suc j)
    with Cons.prems have j: "j < length xs" and d: "distinct xs" and nx: "x \<notin> set xs" by simp_all
    from j nx have "xs ! j \<noteq> x" by (metis nth_mem)
    with Cons.IH [OF d j] Suc show ?thesis by (simp add: Let_def)
  qed
qed

lemma splice_remove:
  "i < length xs \<Longrightarrow> splice (int i) 1 [] xs = take i xs @ drop (Suc i) xs"
  by (simp add: splice_def Let_def min_def)

lemma splice_insert:
  "i \<le> length xs \<Longrightarrow> splice (int i) 0 [x] xs = take i xs @ x # drop i xs"
  by (simp add: splice_def Let_def min_def)

lemma take_drop_remove1:
  "distinct xs \<Longrightarrow> i < length xs \<Longrightarrow> take i xs @ drop (Suc i) xs = remove1 (xs ! i) xs"
proof (induction xs arbitrary: i)
  case Nil
  then show ?case by simp
next
  case (Cons x xs)
  show ?case
  proof (cases i)
    case 0
    then show ?thesis by simp
  next
    case (Suc j)
    with Cons.prems have j: "j < length xs" and d: "distinct xs" and nx: "x \<notin> set xs" by simp_all
    from j nx have "xs ! j \<noteq> x" by (metis nth_mem)
    with Cons.IH [OF d j] Suc show ?thesis by simp
  qed
qed

lemma indexOf_position:
  assumes "v \<in> set xs"
  obtains n where "indexOf xs v = int n" and "n < length xs" and "xs ! n = v"
proof -
  from indexOf_present [OF assms]
  have "indexOf xs v = int (nat (indexOf xs v))" "nat (indexOf xs v) < length xs"
    "xs ! nat (indexOf xs v) = v" by simp_all
  then show thesis using that by blast
qed

lemma splice_indexOf_remove:
  assumes "distinct xs" and "v \<in> set xs"
  shows "splice (indexOf xs v) 1 [] xs = remove1 v xs"
proof -
  from assms(2) obtain n where n: "indexOf xs v = int n" "n < length xs" "xs ! n = v"
    by (rule indexOf_position)
  have "splice (int n) 1 [] xs = remove1 v xs"
    using n(2,3) assms(1) splice_remove [of n xs] take_drop_remove1 [of xs n] by simp
  with n(1) show ?thesis by simp
qed



section \<open>Looking a name up\<close>

lemma table_get_Some [simp]: "map_of t k = Some v \<Longrightarrow> table_get t k = Own v"
  by (simp add: table_get_def)

lemma table_get_plain [simp]:
  "map_of t k = None \<Longrightarrow> k \<notin> set inherited_names \<Longrightarrow> table_get t k = Absent"
  by (simp add: table_get_def)

lemma table_get_inherited [simp]:
  "map_of t k = None \<Longrightarrow> k \<in> set inherited_names \<Longrightarrow> table_get t k = Inherited"
  by (simp add: table_get_def)

lemma table_get_Own_iff: "table_get t k = Own v \<longleftrightarrow> map_of t k = Some v"
  by (simp add: table_get_def split: option.splits)

lemma table_get_Absent_iff:
  "table_get t k = Absent \<longleftrightarrow> map_of t k = None \<and> k \<notin> set inherited_names"
  by (simp add: table_get_def split: option.splits)

lemma table_get_Inherited_iff:
  "table_get t k = Inherited \<longleftrightarrow> map_of t k = None \<and> k \<in> set inherited_names"
  by (simp add: table_get_def split: option.splits)

lemma js_inc_ge: "x \<le> js_inc x"
  by (simp add: js_inc_def)



lemma object_keys_set [simp]: "set (object_keys t) = fst ` set t"
  by (auto simp: object_keys_def Let_def)

lemma object_keys_length [simp]: "length (object_keys t) = length t"
proof -
  have "length (filter (\<lambda>k. array_index k \<noteq> None) (map fst t)) +
      length (filter (\<lambda>k. \<not> array_index k \<noteq> None) (map fst t)) = length (map fst t)"
    by (rule sum_length_filter_compl)
  then show ?thesis by (simp add: object_keys_def Let_def)
qed

lemma object_keys_distinct: "distinct (map fst t) \<Longrightarrow> distinct (object_keys t)"
  by (auto simp: object_keys_def Let_def)

lemma count_length: "count s = length (files s)"
  by (simp add: count_def)

lemma object_keys_example:
  "object_keys [(''b'', 0::nat), (''10'', 1), (''2'', 2), (''01'', 3)] = [''2'', ''10'', ''b'', ''01'']"
  by code_simp

section \<open>What the private writers leave alone\<close>

lemma wp_fields [simp]:
  "files (writeProperties_priv s) = files s"
  "properties (writeProperties_priv s) = properties s"
  "heap (writeProperties_priv s) = heap s"
  "maxIndex (writeProperties_priv s) = maxIndex s"
  "modelled (writeProperties_priv s) = modelled s"
  by (simp_all add: writeProperties_priv_def split: prod.splits)

lemma filesOrder_wp [simp]: "filesOrder (writeProperties_priv s) = filesOrder s"
  by (simp add: filesOrder_def)

lemma set_filesOrder_fields [simp]:
  "files (set_filesOrder xs s) = files s"
  "heap (set_filesOrder xs s) = heap s"
  "maxIndex (set_filesOrder xs s) = maxIndex s"
  "modelled (set_filesOrder xs s) = modelled s"
  "filesOrder (set_filesOrder xs s) = JArr xs"
  by (simp_all add: set_filesOrder_def filesOrder_def update_conv')

lemma wf_priv_fields [simp]:
  "files (writeFile_priv k s) = files s"
  "properties (writeFile_priv k s) = properties s"
  "maxIndex (writeFile_priv k s) = maxIndex s"
  "length (heap (writeFile_priv k s)) = length (heap s)"
  "filesOrder (writeFile_priv k s) = filesOrder s"
  by (simp_all add: writeFile_priv_def filesOrder_def Let_def split: found.splits prod.splits)

lemma wf_priv_modelled [simp]:
  "map_of (files s) k = Some r \<Longrightarrow> modelled (writeFile_priv k s) = modelled s"
  by (simp add: writeFile_priv_def Let_def split: prod.splits)

lemma nth_update_any: "(xs[i := x]) ! j = (if i = j \<and> i < length xs then x else xs ! j)"
  by (cases "i < length xs") (simp_all add: nth_list_update list_update_beyond)

lemma wf_priv_record [simp]:
  "name (heap (writeFile_priv k s) ! j) = name (heap s ! j)"
  "index (heap (writeFile_priv k s) ! j) = index (heap s ! j)"
  "data (heap (writeFile_priv k s) ! j) = data (heap s ! j)"
  "selected (heap (writeFile_priv k s) ! j) = selected (heap s ! j)"
  by (auto simp: writeFile_priv_def Let_def nth_update_any split: found.splits prod.splits)


section \<open>The invariants, unfolded\<close>

lemma recordsInv_iff:
  "recordsInv s \<longleftrightarrow>
     distinct (map fst (files s)) \<and>
     (\<forall>n r. map_of (files s) n = Some r \<longrightarrow>
        r < length (heap s) \<and> name (heap s ! r) = n \<and> index (heap s ! r) \<le> maxIndex s)"
  by (auto simp: recordsInv_def list_all_iff dest: map_of_SomeD)

lemma orderInv_iff:
  "orderInv s \<longleftrightarrow>
     (\<exists>order. filesOrder s = JArr order \<and> distinct order \<and> set order = JStr ` fst ` set (files s))"
  by (auto simp: orderInv_def image_image case_prod_beta split: jsval.splits)

lemma recordsInv_same:
  assumes "files s' = files s" and "maxIndex s' = maxIndex s" and "length (heap s') = length (heap s)"
    and "\<And>j. j < length (heap s) \<Longrightarrow> name (heap s' ! j) = name (heap s ! j)"
    and "\<And>j. j < length (heap s) \<Longrightarrow> index (heap s' ! j) = index (heap s ! j)"
    and "recordsInv s"
  shows "recordsInv s'"
  using assms by (simp add: recordsInv_iff)

lemma orderInv_same:
  "files s' = files s \<Longrightarrow> filesOrder s' = filesOrder s \<Longrightarrow> orderInv s \<Longrightarrow> orderInv s'"
  by (simp add: orderInv_iff)


lemma recordsInv_modelled [simp]: "recordsInv (s\<lparr>modelled := b\<rparr>) = recordsInv s"
  by (simp add: recordsInv_def)

lemma orderInv_modelled [simp]: "orderInv (s\<lparr>modelled := b\<rparr>) = orderInv s"
  by (simp add: orderInv_iff filesOrder_def)


section \<open>The file operations keep the invariants\<close>

subsection \<open>\<^verbatim>\<open>writeFile\<close>\<close>

lemma filesOrder_other [simp]:
  "filesOrder (s\<lparr>heap := h\<rparr>) = filesOrder s"
  "filesOrder (s\<lparr>files := fs\<rparr>) = filesOrder s"
  "filesOrder (s\<lparr>maxIndex := mi\<rparr>) = filesOrder s"
  "filesOrder (s\<lparr>calls := cs\<rparr>) = filesOrder s"
  "filesOrder (s\<lparr>propsFlags := w\<rparr>) = filesOrder s"
  "filesOrder (s\<lparr>modelled := b\<rparr>) = filesOrder s"
  by (simp_all add: filesOrder_def)


lemma writeFile_existing:
  assumes "truthy_name nm" and "map_of (files s) (key_of nm) = Some r"
  shows "fst (writeFile nm dat s) = Returned (Some r)"
    and "files (snd (writeFile nm dat s)) = files s"
    and "properties (snd (writeFile nm dat s)) = properties s"
    and "maxIndex (snd (writeFile nm dat s)) = maxIndex s"
    and "length (heap (snd (writeFile nm dat s))) = length (heap s)"
    and "name (heap (snd (writeFile nm dat s)) ! j) = name (heap s ! j)"
    and "index (heap (snd (writeFile nm dat s)) ! j) = index (heap s ! j)"
    and "modelled (snd (writeFile nm dat s)) = modelled s"
  using assms by (simp_all add: writeFile_def Let_def nth_update_any)

lemma writeFile_new:
  assumes "truthy_name nm" and "map_of (files s) (key_of nm) = None"
    and "key_of nm \<notin> set inherited_names" and "filesOrder s = JArr order"
  shows "fst (writeFile nm dat s) = Returned (Some (length (heap s)))"
    and "files (snd (writeFile nm dat s)) = AList.update (key_of nm) (length (heap s)) (files s)"
    and "filesOrder (snd (writeFile nm dat s)) = JArr (order @ [val_of nm])"
    and "maxIndex (snd (writeFile nm dat s)) = js_inc (maxIndex s)"
    and "length (heap (snd (writeFile nm dat s))) = Suc (length (heap s))"
    and "name (heap (snd (writeFile nm dat s)) ! length (heap s)) = key_of nm"
    and "index (heap (snd (writeFile nm dat s)) ! length (heap s)) = js_inc (maxIndex s)"
    and "j < length (heap s) \<Longrightarrow> name (heap (snd (writeFile nm dat s)) ! j) = name (heap s ! j)"
    and "j < length (heap s) \<Longrightarrow> index (heap (snd (writeFile nm dat s)) ! j) = index (heap s ! j)"
    and "modelled (snd (writeFile nm dat s)) = modelled s"
  using assms by (simp_all add: writeFile_def Let_def nth_update_any nth_append update_conv')

lemma writeFile_inherited:
  assumes "truthy_name nm" and "map_of (files s) (key_of nm) = None"
    and "key_of nm \<in> set inherited_names"
  shows "writeFile nm dat s = (Unmodelled, s\<lparr>modelled := False\<rparr>)"
  using assms by (simp add: writeFile_def Let_def)

lemma writeFile_cases:
  obtains (falsy) "\<not> truthy_name nm"
  | (existing) r where "truthy_name nm" and "map_of (files s) (key_of nm) = Some r"
  | (inherited) "truthy_name nm" and "map_of (files s) (key_of nm) = None"
      and "key_of nm \<in> set inherited_names"
  | (new) "truthy_name nm" and "map_of (files s) (key_of nm) = None"
      and "key_of nm \<notin> set inherited_names"
  by (cases "map_of (files s) (key_of nm)") auto

lemma truthy_name_key: "truthy_name nm \<Longrightarrow> val_of nm = JStr (key_of nm) \<and> key_of nm \<noteq> []"
  by (cases nm) (simp_all add: truthy_name_def key_of_def)


lemma writeFile_inv:
  assumes "recordsInv s" and "orderInv s"
  shows "recordsInv (snd (writeFile nm dat s)) \<and> orderInv (snd (writeFile nm dat s))"
proof (cases rule: writeFile_cases [where nm = nm and s = s])
  case falsy
  with assms show ?thesis by (simp add: writeFile_def)
next
  case (existing r)
  note ex = writeFile_existing [OF existing, where dat = dat]
  have "recordsInv (snd (writeFile nm dat s))"
    by (rule recordsInv_same [OF ex(2) ex(4) ex(5) ex(6) ex(7) assms(1)])
  moreover have "filesOrder (snd (writeFile nm dat s)) = filesOrder s"
    by (simp add: filesOrder_def ex(3))
  then have "orderInv (snd (writeFile nm dat s))"
    using ex(2) assms(2) by (simp add: orderInv_iff)
  ultimately show ?thesis ..
next
  case inherited
  with assms show ?thesis by (simp add: writeFile_inherited)
next
  case new
  from assms(2) obtain order where order: "filesOrder s = JArr order" "distinct order"
    "set order = JStr ` fst ` set (files s)" by (auto simp: orderInv_iff)
  note nw = writeFile_new [OF new order(1), where dat = dat]
  let ?s' = "snd (writeFile nm dat s)"
  from new have key: "val_of nm = JStr (key_of nm)" by (simp add: truthy_name_key)
  from new(2) have notin: "key_of nm \<notin> fst ` set (files s)" by (simp add: map_of_eq_None_iff)
  have rec: "r < length (heap ?s') \<and> name (heap ?s' ! r) = n \<and> index (heap ?s' ! r) \<le> maxIndex ?s'"
    if "map_of (files ?s') n = Some r" for n r
  proof -
    from that have look: "(if n = key_of nm then Some (length (heap s)) else map_of (files s) n) = Some r"
      by (simp add: nw(2) update_conv')
    show ?thesis
    proof (cases "n = key_of nm")
      case True
      with look have "r = length (heap s)" by simp
      then show ?thesis using True by (simp add: nw)
    next
      case False
      with look have "map_of (files s) n = Some r" by simp
      with assms(1) have old: "r < length (heap s)" "name (heap s ! r) = n"
        "index (heap s ! r) \<le> maxIndex s" by (simp_all add: recordsInv_iff)
      then show ?thesis using js_inc_ge [of "maxIndex s"] by (simp add: nw)
    qed
  qed
  have "distinct (map fst (files ?s'))"
    using assms(1) by (simp add: nw(2) distinct_update recordsInv_iff)
  with rec have "recordsInv ?s'"
    unfolding recordsInv_iff by blast
  moreover have "orderInv ?s'"
    unfolding orderInv_iff
  proof (intro exI conjI)
    show "filesOrder ?s' = JArr (order @ [val_of nm])" by (rule nw(3))
    show "distinct (order @ [val_of nm])" using order(2,3) notin key by auto
    show "set (order @ [val_of nm]) = JStr ` fst ` set (files ?s')"
      using order(3) key by (simp add: nw(2) dom_update)
  qed
  ultimately show ?thesis ..
qed

subsection \<open>\<^verbatim>\<open>removeFile\<close>\<close>

lemma removeFile_noop:
  "\<not> truthy_name nm \<or> table_get (files s) (key_of nm) = Absent
   \<Longrightarrow> removeFile nm s = (Returned JUndefined, s)"
  by (auto simp: removeFile_def)

lemma removeFile_inherited:
  "truthy_name nm \<Longrightarrow> table_get (files s) (key_of nm) = Inherited
   \<Longrightarrow> removeFile nm s = (Unmodelled, s\<lparr>modelled := False\<rparr>)"
  by (simp add: removeFile_def)

lemma removeFile_present:
  assumes "truthy_name nm" and "map_of (files s) (key_of nm) = Some r" and "filesOrder s = JArr order"
  shows "fst (removeFile nm s) = Returned (JBool True)"
    and "files (snd (removeFile nm s)) = AList.delete (name (heap s ! r)) (files s)"
    and "filesOrder (snd (removeFile nm s)) =
           JArr (splice (indexOf order (JStr (name (heap s ! r)))) 1 [] order)"
    and "maxIndex (snd (removeFile nm s)) = maxIndex s"
    and "heap (snd (removeFile nm s)) = heap s"
    and "modelled (snd (removeFile nm s)) = modelled s"
  using assms by (simp_all add: removeFile_def Let_def)

lemma removeFile_inv:
  assumes "recordsInv s" and "orderInv s"
  shows "recordsInv (snd (removeFile nm s)) \<and> orderInv (snd (removeFile nm s))"
proof (cases "truthy_name nm \<and> map_of (files s) (key_of nm) \<noteq> None")
  case False
  then consider "\<not> truthy_name nm \<or> table_get (files s) (key_of nm) = Absent"
    | "truthy_name nm" "table_get (files s) (key_of nm) = Inherited"
    by (cases "table_get (files s) (key_of nm)") (auto simp: table_get_Own_iff)
  then show ?thesis
  proof cases
    case 1
    then have "removeFile nm s = (Returned JUndefined, s)" by (rule removeFile_noop)
    with assms show ?thesis by simp
  next
    case 2
    then have "removeFile nm s = (Unmodelled, s\<lparr>modelled := False\<rparr>)" by (rule removeFile_inherited)
    with assms show ?thesis by simp
  qed
next

next
  case True
  then obtain r where r: "truthy_name nm" "map_of (files s) (key_of nm) = Some r" by auto
  from assms(2) obtain order where order: "filesOrder s = JArr order" "distinct order"
    "set order = JStr ` fst ` set (files s)" by (auto simp: orderInv_iff)
  from assms(1) r(2) have nm: "name (heap s ! r) = key_of nm" by (simp add: recordsInv_iff)
  note rm = removeFile_present [OF r order(1), unfolded nm]
  let ?s' = "snd (removeFile nm s)"
  from r(2) have "key_of nm \<in> fst ` set (files s)"
    by (metis map_of_eq_None_iff option.distinct(1))
  with order(3) have mem: "JStr (key_of nm) \<in> set order" by simp
  have fo: "filesOrder ?s' = JArr (remove1 (JStr (key_of nm)) order)"
    using splice_indexOf_remove [OF order(2) mem] by (simp add: rm(3))
  have "recordsInv ?s'"
    using assms(1) by (auto simp: recordsInv_iff rm distinct_delete delete_conv' split: if_splits)
  moreover have "orderInv ?s'"
    unfolding orderInv_iff
  proof (intro exI conjI)
    show "filesOrder ?s' = JArr (remove1 (JStr (key_of nm)) order)" by (rule fo)
    show "distinct (remove1 (JStr (key_of nm)) order)" using order(2) by simp
    have "fst ` set (AList.delete (key_of nm) (files s)) = fst ` set (files s) - {key_of nm}"
      by (auto simp: AList.delete_eq image_iff)
    then show "set (remove1 (JStr (key_of nm)) order) = JStr ` fst ` set (files ?s')"
      using order(2,3) by (auto simp: rm(2))
  qed
  ultimately show ?thesis ..
qed


subsection \<open>\<^verbatim>\<open>renameFile\<close>\<close>

lemma renameFile_refused:
  "\<not> truthy_name newFile \<or> table_get (files s) (key_of nm) = Absent \<or>
     table_get (files s) (key_of newFile) \<noteq> Absent
   \<Longrightarrow> renameFile nm newFile s = (Returned JUndefined, s)"
  by (auto simp: renameFile_def split: found.splits)

lemma renameFile_inherited:
  "truthy_name newFile \<Longrightarrow> table_get (files s) (key_of nm) = Inherited \<Longrightarrow>
   table_get (files s) (key_of newFile) = Absent
   \<Longrightarrow> renameFile nm newFile s = (Unmodelled, s\<lparr>modelled := False\<rparr>)"
  by (simp add: renameFile_def)

lemma renameFile_done:
  assumes "truthy_name newFile" and "map_of (files s) (key_of nm) = Some r"
    and "table_get (files s) (key_of newFile) = Absent" and "filesOrder s = JArr order"
  shows "fst (renameFile nm newFile s) = Returned (JBool True)"
    and "files (snd (renameFile nm newFile s)) =
           AList.update (key_of newFile) r (AList.delete (name (heap s ! r)) (files s))"
    and "filesOrder (snd (renameFile nm newFile s)) =
           JArr (if indexOf order (JStr (name (heap s ! r))) < 0 then order
                 else order[nat (indexOf order (JStr (name (heap s ! r)))) := val_of newFile])"
    and "maxIndex (snd (renameFile nm newFile s)) = maxIndex s"
    and "heap (snd (renameFile nm newFile s)) = (heap s)[r := (heap s ! r)\<lparr>name := key_of newFile\<rparr>]"
    and "modelled (snd (renameFile nm newFile s)) = modelled s"
  using assms by (simp_all add: renameFile_def Let_def)

lemma renameFile_inv:
  assumes "recordsInv s" and "orderInv s"
  shows "recordsInv (snd (renameFile nm newFile s)) \<and> orderInv (snd (renameFile nm newFile s))"
proof (cases "truthy_name newFile \<and> map_of (files s) (key_of nm) \<noteq> None \<and>
    table_get (files s) (key_of newFile) = Absent")
  case False
  then consider "\<not> truthy_name newFile \<or> table_get (files s) (key_of nm) = Absent \<or>
        table_get (files s) (key_of newFile) \<noteq> Absent"
    | "truthy_name newFile" "table_get (files s) (key_of nm) = Inherited"
        "table_get (files s) (key_of newFile) = Absent"
    by (cases "table_get (files s) (key_of nm)") (auto simp: table_get_Own_iff)
  then show ?thesis
  proof cases
    case 1
    then have "renameFile nm newFile s = (Returned JUndefined, s)" by (rule renameFile_refused)
    with assms show ?thesis by simp
  next
    case 2
    then have "renameFile nm newFile s = (Unmodelled, s\<lparr>modelled := False\<rparr>)"
      by (rule renameFile_inherited)
    with assms show ?thesis by simp
  qed
next
  case True
  then obtain r where r: "truthy_name newFile" "map_of (files s) (key_of nm) = Some r"
    "table_get (files s) (key_of newFile) = Absent" by auto
  from r(3) have r3: "map_of (files s) (key_of newFile) = None" by (simp add: table_get_Absent_iff)
  from assms(2) obtain order where order: "filesOrder s = JArr order" "distinct order"
    "set order = JStr ` fst ` set (files s)" by (auto simp: orderInv_iff)
  from assms(1) r(2) have nm: "name (heap s ! r) = key_of nm" and rlen: "r < length (heap s)"
    and ridx: "index (heap s ! r) \<le> maxIndex s" by (simp_all add: recordsInv_iff)
  from r(1) have nv: "val_of newFile = JStr (key_of newFile)" by (simp add: truthy_name_key)
  from r(2) have "key_of nm \<in> fst ` set (files s)"
    by (metis map_of_eq_None_iff option.distinct(1))
  with order(3) have mem: "JStr (key_of nm) \<in> set order" by simp
  then obtain i where i: "indexOf order (JStr (key_of nm)) = int i" "i < length order"
    "order ! i = JStr (key_of nm)" by (rule indexOf_position)
  from r3 have notin: "key_of newFile \<notin> fst ` set (files s)" by (simp add: map_of_eq_None_iff)
  with order(3) have fresh: "JStr (key_of newFile) \<notin> set order" by auto
  note rn = renameFile_done [OF r order(1), unfolded nm]
  let ?s' = "snd (renameFile nm newFile s)"
  have fo: "filesOrder ?s' = JArr (order[i := JStr (key_of newFile)])"
    by (simp add: rn(3) i(1) nv)
  have rec: "q < length (heap ?s') \<and> name (heap ?s' ! q) = n \<and> index (heap ?s' ! q) \<le> maxIndex ?s'"
    if "map_of (files ?s') n = Some q" for n q
  proof (cases "n = key_of newFile")
    case True
    with that have "q = r" by (simp add: rn(2) update_conv')
    with True rlen ridx show ?thesis by (simp add: rn)
  next
    case False
    with that have old: "map_of (files s) n = Some q" and ne: "n \<noteq> key_of nm"
      by (auto simp: rn(2) update_conv' delete_conv' split: if_splits)
    with assms(1) have q: "q < length (heap s)" "name (heap s ! q) = n" "index (heap s ! q) \<le> maxIndex s"
      by (simp_all add: recordsInv_iff)
    with ne nm have "q \<noteq> r" by auto
    with q show ?thesis by (simp add: rn)
  qed
  have "distinct (map fst (files ?s'))"
    using assms(1) by (simp add: rn(2) distinct_update distinct_delete recordsInv_iff)
  with rec have "recordsInv ?s'"
    unfolding recordsInv_iff by blast
  moreover have "orderInv ?s'"
    unfolding orderInv_iff
  proof (intro exI conjI)
    show "filesOrder ?s' = JArr (order[i := JStr (key_of newFile)])" by (rule fo)
    show "distinct (order[i := JStr (key_of newFile)])"
      using order(2) fresh by (simp add: distinct_list_update)
    have "fst ` set (AList.delete (key_of nm) (files s)) = fst ` set (files s) - {key_of nm}"
      by (auto simp: AList.delete_eq image_iff)
    then show "set (order[i := JStr (key_of newFile)]) = JStr ` fst ` set (files ?s')"
      using order(2,3) i(2,3) by (auto simp: rn(2) dom_update set_update_distinct)
  qed
  ultimately show ?thesis ..
qed

subsection \<open>\<^verbatim>\<open>moveTo\<close>\<close>

lemma immediately_before_nth:
  "Suc k < length xs \<Longrightarrow> xs ! k = x \<Longrightarrow> xs ! Suc k = y \<Longrightarrow> immediately_before x y xs"
proof (induction x y xs arbitrary: k rule: immediately_before.induct)
  case (1 x y a b rest)
  then show ?case by (cases k) auto
qed simp_all

lemma reinsert_facts:
  assumes d: "distinct xs" and i: "i < length xs" and j: "j < length xs"
  defines "x \<equiv> xs ! i"
  defines "ys \<equiv> take i xs @ drop (Suc i) xs"
  defines "zs \<equiv> take j ys @ x # drop j ys"
  shows "ys = remove1 x xs" and "zs ! j = x" and "remove1 x zs = remove1 x xs"
    and "distinct zs" and "set zs = set xs" and "length zs = length xs"
    and "i < j \<Longrightarrow> zs ! (j - 1) = xs ! j" and "j < i \<Longrightarrow> zs ! Suc j = xs ! j"
proof -
  show ys: "ys = remove1 x xs"
    unfolding ys_def x_def using d i by (rule take_drop_remove1)
  have x_in: "x \<in> set xs" unfolding x_def using i by simp
  have len_ys: "length ys = length xs - 1"
    using x_in by (simp add: ys length_remove1)
  with j have j_le: "j \<le> length ys" by simp
  have x_notin: "x \<notin> set ys" using d by (simp add: ys)
  have d_ys: "distinct ys" using d by (simp add: ys)
  show "zs ! j = x"
    unfolding zs_def using j_le by (simp add: nth_append)
  have "x \<notin> set (take j ys)" using x_notin by (meson in_set_takeD)
  then have "remove1 x zs = take j ys @ drop j ys"
    unfolding zs_def by (simp add: remove1_append)
  then show "remove1 x zs = remove1 x xs" by (simp add: ys)
  have set_zs: "set zs = insert x (set ys)"
  proof -
    have parts: "set ys = set (take j ys) \<union> set (drop j ys)"
      by (metis append_take_drop_id set_append)
    have "set zs = set (take j ys) \<union> insert x (set (drop j ys))"
      unfolding zs_def by simp
    with parts show ?thesis by auto
  qed
  show "distinct zs"
  proof -
    have "distinct (take j ys) \<and> distinct (drop j ys) \<and> set (take j ys) \<inter> set (drop j ys) = {}"
      using d_ys by (metis append_take_drop_id distinct_append)
    moreover have "x \<notin> set (take j ys)" "x \<notin> set (drop j ys)"
      using x_notin by (meson in_set_takeD, meson in_set_dropD)
    ultimately show ?thesis unfolding zs_def by auto
  qed
  show "set zs = set xs"
    using set_zs x_in d by (auto simp: ys)
  show "length zs = length xs"
    unfolding zs_def using len_ys i by simp
  show "zs ! (j - 1) = xs ! j" if "i < j"
  proof -
    from that j_le have "zs ! (j - 1) = ys ! (j - 1)"
      unfolding zs_def by (simp add: nth_append)
    also have "ys ! (j - 1) = drop (Suc i) xs ! (j - 1 - i)"
    proof -
      from that have "\<not> j - 1 < length (take i xs)" using i by simp
      then have "(take i xs @ drop (Suc i) xs) ! (j - 1) =
          drop (Suc i) xs ! (j - 1 - length (take i xs))"
        by (simp only: nth_append if_False)
      then show ?thesis unfolding ys_def using i by simp
    qed
    also have "\<dots> = xs ! (Suc i + (j - 1 - i))"
      using i by simp
    also have "Suc i + (j - 1 - i) = j" using that by simp
    finally show ?thesis .
  qed
  show "zs ! Suc j = xs ! j" if "j < i"
  proof -
    from that i len_ys have "j < length ys" by simp
    then have "zs ! Suc j = ys ! j"
      unfolding zs_def by (simp add: nth_append)
    also have "ys ! j = xs ! j"
      unfolding ys_def using that i by (simp add: nth_append)
    finally show ?thesis .
  qed
qed

lemma moveTo_absent:
  assumes "filesOrder s = JArr order" and "val_of fromName \<notin> set order \<or> val_of toName \<notin> set order"
  shows "moveTo fromName toName s = (Returned (JBool False), s)"
  using assms by (auto simp: moveTo_def Let_def indexOf_absent)

lemma moveTo_present:
  assumes fo: "filesOrder s = JArr order" and i: "indexOf order (val_of fromName) = int i" "i < length order"
    and j: "indexOf order (val_of toName) = int j" "j < length order"
  shows "fst (moveTo fromName toName s) = Returned (JBool True)"
    and "filesOrder (snd (moveTo fromName toName s)) =
           JArr (take j (take i order @ drop (Suc i) order) @ val_of fromName #
                 drop j (take i order @ drop (Suc i) order))"
    and "files (snd (moveTo fromName toName s)) = files s"
    and "heap (snd (moveTo fromName toName s)) = heap s"
    and "maxIndex (snd (moveTo fromName toName s)) = maxIndex s"
proof -
  have one: "splice (int i) 1 [] order = take i order @ drop (Suc i) order"
    using i(2) by (rule splice_remove)
  have "j \<le> length (take i order @ drop (Suc i) order)" using i(2) j(2) by simp
  then have two: "splice (int j) 0 [val_of fromName] (take i order @ drop (Suc i) order) =
      take j (take i order @ drop (Suc i) order) @ val_of fromName #
        drop j (take i order @ drop (Suc i) order)"
    by (rule splice_insert)
  show "fst (moveTo fromName toName s) = Returned (JBool True)"
    and "filesOrder (snd (moveTo fromName toName s)) =
           JArr (take j (take i order @ drop (Suc i) order) @ val_of fromName #
                 drop j (take i order @ drop (Suc i) order))"
    and "files (snd (moveTo fromName toName s)) = files s"
    and "heap (snd (moveTo fromName toName s)) = heap s"
    and "maxIndex (snd (moveTo fromName toName s)) = maxIndex s"
    using fo i(1) j(1) one two by (simp_all add: moveTo_def Let_def)
qed

lemma moveTo_moved:
  assumes d: "distinct order" and fo: "filesOrder s = JArr order"
    and x: "val_of fromName \<in> set order" and y: "val_of toName \<in> set order"
  obtains order' where "fst (moveTo fromName toName s) = Returned (JBool True)"
    and "filesOrder (snd (moveTo fromName toName s)) = JArr order'"
    and "files (snd (moveTo fromName toName s)) = files s"
    and "heap (snd (moveTo fromName toName s)) = heap s"
    and "maxIndex (snd (moveTo fromName toName s)) = maxIndex s"
    and "distinct order'" and "set order' = set order"
    and "indexOf order' (val_of fromName) = indexOf order (val_of toName)"
    and "remove1 (val_of fromName) order' = remove1 (val_of fromName) order"
    and "indexOf order (val_of fromName) < indexOf order (val_of toName) \<Longrightarrow>
           immediately_before (val_of toName) (val_of fromName) order'"
    and "indexOf order (val_of toName) < indexOf order (val_of fromName) \<Longrightarrow>
           immediately_before (val_of fromName) (val_of toName) order'"
proof -
  from x obtain i where i: "indexOf order (val_of fromName) = int i" "i < length order"
    "order ! i = val_of fromName" by (rule indexOf_position)
  from y obtain j where j: "indexOf order (val_of toName) = int j" "j < length order"
    "order ! j = val_of toName" by (rule indexOf_position)
  define order' where "order' = take j (take i order @ drop (Suc i) order) @ order ! i #
    drop j (take i order @ drop (Suc i) order)"
  note mv = moveTo_present [OF fo i(1,2) j(1,2)]
  note re = reinsert_facts [OF d i(2) j(2), folded order'_def]
  have at_j: "order' ! j = val_of fromName" using re(2) i(3) by simp
  have len: "length order' = length order" by (rule re(6))
  have "indexOf order' (order' ! j) = int j"
    using re(4) j(2) len by (intro indexOf_nth_distinct) simp_all
  then have pos: "indexOf order' (val_of fromName) = indexOf order (val_of toName)"
    using at_j j(1) by simp
  have after: "immediately_before (val_of toName) (val_of fromName) order'"
    if "indexOf order (val_of fromName) < indexOf order (val_of toName)"
  proof -
    from that i(1) j(1) have lt: "i < j" by simp
    then have "order' ! (j - 1) = val_of toName" using re(7) j(3) by simp
    moreover have "Suc (j - 1) = j" using lt by simp
    ultimately show ?thesis
      using at_j j(2) len by (intro immediately_before_nth [of "j - 1"]) simp_all
  qed
  have before: "immediately_before (val_of fromName) (val_of toName) order'"
    if "indexOf order (val_of toName) < indexOf order (val_of fromName)"
  proof -
    from that i(1) j(1) have lt: "j < i" by simp
    then have "order' ! Suc j = val_of toName" using re(8) j(3) by simp
    then show ?thesis
      using at_j lt i(2) len by (intro immediately_before_nth [of j]) simp_all
  qed
  show thesis
  proof (rule that [of order'])
    show "filesOrder (snd (moveTo fromName toName s)) = JArr order'"
      using mv(2) i(3) by (simp add: order'_def)
    show "remove1 (val_of fromName) order' = remove1 (val_of fromName) order"
      using re(3) i(3) by simp
  qed (use mv re pos after before in simp_all)
qed

lemma moveTo_inv:
  assumes "recordsInv s" and "orderInv s"
  shows "recordsInv (snd (moveTo fromName toName s)) \<and> orderInv (snd (moveTo fromName toName s))"
proof -
  from assms(2) obtain order where order: "filesOrder s = JArr order" "distinct order"
    "set order = JStr ` fst ` set (files s)" by (auto simp: orderInv_iff)
  show ?thesis
  proof (cases "val_of fromName \<in> set order \<and> val_of toName \<in> set order")
    case False
    then have "moveTo fromName toName s = (Returned (JBool False), s)"
      by (intro moveTo_absent [OF order(1)]) auto
    with assms show ?thesis by simp
  next
    case True
    then have x: "val_of fromName \<in> set order" and y: "val_of toName \<in> set order" by simp_all
    from order(2,1) x y obtain order' where
      mv: "filesOrder (snd (moveTo fromName toName s)) = JArr order'"
        "files (snd (moveTo fromName toName s)) = files s"
        "heap (snd (moveTo fromName toName s)) = heap s"
        "maxIndex (snd (moveTo fromName toName s)) = maxIndex s"
        "distinct order'" "set order' = set order"
      by (rule moveTo_moved)
    have "recordsInv (snd (moveTo fromName toName s))"
      using assms(1) by (simp add: recordsInv_iff mv)
    moreover have "orderInv (snd (moveTo fromName toName s))"
      unfolding orderInv_iff using mv order(3) by auto
    ultimately show ?thesis ..
  qed
qed

text \<open>
  C4 (amended). In a state where \<^verbatim>\<open>filesOrder\<close> is a permutation of the keys of the file
  table, \<^verbatim>\<open>moveTo(x, y)\<close> with \<^verbatim>\<open>x\<close> or \<^verbatim>\<open>y\<close> absent from \<^verbatim>\<open>filesOrder\<close> returns
  \<^verbatim>\<open>false\<close> and changes nothing. With both present it returns \<^verbatim>\<open>true\<close> and \<^verbatim>\<open>x\<close> ends
  up at the index \<^verbatim>\<open>y\<close> had before the call: immediately after \<^verbatim>\<open>y\<close> when \<^verbatim>\<open>x\<close> stood
  before \<^verbatim>\<open>y\<close>, immediately before \<^verbatim>\<open>y\<close> when \<^verbatim>\<open>x\<close> stood after it. The other names
  keep their relative order.
\<close>

theorem moveTo_lands_on_target_index:
  assumes "orderInv s" and "filesOrder s = JArr order"
  shows "(val_of x \<notin> set order \<or> val_of y \<notin> set order \<longrightarrow>
            moveTo x y s = (Returned (JBool False), s)) \<and>
         (val_of x \<in> set order \<and> val_of y \<in> set order \<longrightarrow>
            (\<exists>order'. fst (moveTo x y s) = Returned (JBool True) \<and>
               filesOrder (snd (moveTo x y s)) = JArr order' \<and>
               indexOf order' (val_of x) = indexOf order (val_of y) \<and>
               remove1 (val_of x) order' = remove1 (val_of x) order \<and>
               (indexOf order (val_of x) < indexOf order (val_of y) \<longrightarrow>
                  immediately_before (val_of y) (val_of x) order') \<and>
               (indexOf order (val_of y) < indexOf order (val_of x) \<longrightarrow>
                  immediately_before (val_of x) (val_of y) order')))"
proof (intro conjI impI)
  assume "val_of x \<notin> set order \<or> val_of y \<notin> set order"
  with assms(2) show "moveTo x y s = (Returned (JBool False), s)" by (rule moveTo_absent)
next
  assume both: "val_of x \<in> set order \<and> val_of y \<in> set order"
  from assms have d: "distinct order" by (auto simp: orderInv_iff)
  from both have x: "val_of x \<in> set order" and y: "val_of y \<in> set order" by simp_all
  from d assms(2) x y show "\<exists>order'. fst (moveTo x y s) = Returned (JBool True) \<and>
               filesOrder (snd (moveTo x y s)) = JArr order' \<and>
               indexOf order' (val_of x) = indexOf order (val_of y) \<and>
               remove1 (val_of x) order' = remove1 (val_of x) order \<and>
               (indexOf order (val_of x) < indexOf order (val_of y) \<longrightarrow>
                  immediately_before (val_of y) (val_of x) order') \<and>
               (indexOf order (val_of y) < indexOf order (val_of x) \<longrightarrow>
                  immediately_before (val_of x) (val_of y) order')"
    by (rule moveTo_moved) blast
qed

text \<open>
  With the order \<^verbatim>\<open>a, b, c\<close> the call \<^verbatim>\<open>moveTo('a', 'c')\<close> yields \<^verbatim>\<open>b, c, a\<close>: \<^verbatim>\<open>a\<close> sits at
  index 2, where \<^verbatim>\<open>c\<close> was, and so after \<^verbatim>\<open>c\<close>, not before it.
\<close>

theorem moveTo_forward_counterexample:
  "orderInv (Storage insertion_sort [(0, ''a'', JStr []), (1, ''b'', JStr []), (2, ''c'', JStr [])] (JObj [])) \<and>
   filesOrder (Storage insertion_sort [(0, ''a'', JStr []), (1, ''b'', JStr []), (2, ''c'', JStr [])] (JObj [])) =
     JArr [JStr ''a'', JStr ''b'', JStr ''c''] \<and>
   fst (moveTo (ArgStr ''a'') (ArgStr ''c'')
          (Storage insertion_sort [(0, ''a'', JStr []), (1, ''b'', JStr []), (2, ''c'', JStr [])] (JObj []))) =
     Returned (JBool True) \<and>
   filesOrder (snd (moveTo (ArgStr ''a'') (ArgStr ''c'')
          (Storage insertion_sort [(0, ''a'', JStr []), (1, ''b'', JStr []), (2, ''c'', JStr [])] (JObj [])))) =
     JArr [JStr ''b'', JStr ''c'', JStr ''a''] \<and>
   \<not> immediately_before (JStr ''a'') (JStr ''c'') [JStr ''b'', JStr ''c'', JStr ''a''] \<and>
   immediately_before (JStr ''c'') (JStr ''a'') [JStr ''b'', JStr ''c'', JStr ''a''] \<and>
   indexOf [JStr ''a'', JStr ''b'', JStr ''c''] (JStr ''c'') = 2 \<and>
   indexOf [JStr ''b'', JStr ''c'', JStr ''a''] (JStr ''a'') = 2"
  by code_simp

theorem moveTo_lands_on_target_index_witness:
  "orderInv (Storage insertion_sort [(0, ''a'', JStr []), (1, ''b'', JStr []), (2, ''c'', JStr [])] (JObj [])) \<and>
   filesOrder (Storage insertion_sort [(0, ''a'', JStr []), (1, ''b'', JStr []), (2, ''c'', JStr [])] (JObj [])) =
     JArr [JStr ''a'', JStr ''b'', JStr ''c''] \<and>
   moveTo (ArgStr ''a'') (ArgStr ''z'')
     (Storage insertion_sort [(0, ''a'', JStr []), (1, ''b'', JStr []), (2, ''c'', JStr [])] (JObj [])) =
     (Returned (JBool False), Storage insertion_sort [(0, ''a'', JStr []), (1, ''b'', JStr []), (2, ''c'', JStr [])] (JObj [])) \<and>
   (\<exists>order'. filesOrder (snd (moveTo (ArgStr ''c'') (ArgStr ''a'')
        (Storage insertion_sort [(0, ''a'', JStr []), (1, ''b'', JStr []), (2, ''c'', JStr [])] (JObj [])))) = JArr order' \<and>
      indexOf order' (JStr ''c'') = 0 \<and>
      remove1 (JStr ''c'') order' = [JStr ''a'', JStr ''b''] \<and>
      immediately_before (JStr ''c'') (JStr ''a'') order')"
proof -
  let ?S = "Storage insertion_sort [(0, ''a'', JStr []), (1, ''b'', JStr []), (2, ''c'', JStr [])] (JObj [])"
  have inv: "orderInv ?S" by code_simp
  have fo: "filesOrder ?S = JArr [JStr ''a'', JStr ''b'', JStr ''c'']" by code_simp
  from moveTo_lands_on_target_index [OF inv fo, of "ArgStr ''a''" "ArgStr ''z''"]
    moveTo_lands_on_target_index [OF inv fo, of "ArgStr ''c''" "ArgStr ''a''"]
  show ?thesis using inv fo by auto
qed


subsection \<open>The property operations, \<^verbatim>\<open>getFileList\<close>, and every call\<close>

lemma assign_property_fields [simp]:
  "files (assign_property nm v s) = files s"
  "heap (assign_property nm v s) = heap s"
  "maxIndex (assign_property nm v s) = maxIndex s"
  by (simp_all add: assign_property_def split: jsval.splits)

lemma assign_property_other:
  "k \<noteq> nm \<Longrightarrow> map_of (properties (assign_property nm v s)) k = map_of (properties s) k"
  by (simp add: assign_property_def update_conv' split: jsval.splits)

lemma setProperty_other:
  assumes "nm \<noteq> ''filesOrder''"
  shows "files (setProperty nm v s) = files s" and "heap (setProperty nm v s) = heap s"
    and "maxIndex (setProperty nm v s) = maxIndex s"
    and "filesOrder (setProperty nm v s) = filesOrder s"
  using assms assign_property_other [of "''filesOrder''" nm v s]
  by (simp_all add: setProperty_def filesOrder_def)

lemma fold_assign_fields:
  "files (fold (\<lambda>(k, v). assign_property k v) kvs s) = files s \<and>
   heap (fold (\<lambda>(k, v). assign_property k v) kvs s) = heap s \<and>
   maxIndex (fold (\<lambda>(k, v). assign_property k v) kvs s) = maxIndex s"
  by (induction kvs arbitrary: s) auto

lemma fold_update_other:
  "k \<notin> fst ` set kvs \<Longrightarrow>
     map_of (properties (fold (\<lambda>(k, v). assign_property k v) kvs s)) k = map_of (properties s) k"
  by (induction kvs arbitrary: s) (auto simp: assign_property_other)

lemma setProperties_other:
  assumes "''filesOrder'' \<notin> fst ` set kvs"
  shows "files (snd (setProperties (Some kvs) s)) = files s"
    and "heap (snd (setProperties (Some kvs) s)) = heap s"
    and "maxIndex (snd (setProperties (Some kvs) s)) = maxIndex s"
    and "filesOrder (snd (setProperties (Some kvs) s)) = filesOrder s"
  using assms by (simp_all add: setProperties_def filesOrder_def fold_update_other fold_assign_fields)

lemma removeProperty_other:
  "files (removeProperty nm s) = files s" "heap (removeProperty nm s) = heap s"
  "maxIndex (removeProperty nm s) = maxIndex s" "filesOrder (removeProperty nm s) = filesOrder s"
  "modelled (removeProperty nm s) = modelled s"
  by (simp_all add: removeProperty_def filesOrder_def delete_conv')


lemma copy_all_extends: "\<exists>cs. snd (copy_all rs h) = h @ cs"
proof (induction rs arbitrary: h)
  case Nil
  show ?case by simp
next
  case (Cons r rs)
  show ?case
  proof (cases r)
    case None
    from Cons [of h] obtain cs where "snd (copy_all rs h) = h @ cs" by blast
    with None show ?thesis by (cases "copy_all rs h") (simp add: copyFileObj_def)
  next
    case (Some q)
    let ?h1 = "h @ [copied (h ! q)]"
    from Cons [of ?h1] obtain cs where "snd (copy_all rs ?h1) = ?h1 @ cs" by blast
    with Some show ?thesis by (cases "copy_all rs ?h1") (simp add: copyFileObj_def)
  qed
qed


lemma getFileList_fields:
  "files (snd (getFileList origObj s)) = files s"
  "properties (snd (getFileList origObj s)) = properties s"
  "maxIndex (snd (getFileList origObj s)) = maxIndex s"
  "\<exists>cs. heap (snd (getFileList origObj s)) = heap s @ cs"
proof -
  show "files (snd (getFileList origObj s)) = files s"
    "properties (snd (getFileList origObj s)) = properties s"
    "maxIndex (snd (getFileList origObj s)) = maxIndex s"
    by (simp_all add: getFileList_def Let_def split: jsval.splits prod.splits)
  show "\<exists>cs. heap (snd (getFileList origObj s)) = heap s @ cs"
  proof (cases "filesOrder s")
    case (JArr order)
    from copy_all_extends [of "map (\<lambda>l. case l of Own r \<Rightarrow> Some r | _ \<Rightarrow> None)
        (map (\<lambda>file. table_get (files s) (ToString file)) order)" "heap s"]
    show ?thesis using JArr by (auto simp: getFileList_def Let_def split: prod.splits)
  qed (simp_all add: getFileList_def)
qed


lemma recordsInv_extend:
  assumes "recordsInv s" and "files s' = files s" and "maxIndex s' = maxIndex s"
    and "heap s' = heap s @ cs"
  shows "recordsInv s'"
proof -
  have "r < length (heap s') \<and> name (heap s' ! r) = n \<and> index (heap s' ! r) \<le> maxIndex s'"
    if "map_of (files s') n = Some r" for n r
  proof -
    from that assms(1,2) have "r < length (heap s)" "name (heap s ! r) = n"
      "index (heap s ! r) \<le> maxIndex s" by (simp_all add: recordsInv_iff)
    then show ?thesis by (simp add: assms(3,4) nth_append)
  qed
  then show ?thesis using assms(1,2) by (simp add: recordsInv_iff)
qed


lemma updateFile_eq:
  "updateFile nm dat s =
     (if table_get (files s) (key_of nm) = Absent then (Returned None, s) else writeFile nm dat s)"
  by (simp add: updateFile_def existsFile_def split: found.splits)


lemma exec_inv:
  assumes "recordsInv s" and "orderInv s" and "\<not> assigns_filesOrder a"
  shows "recordsInv (exec a s) \<and> orderInv (exec a s)"
proof (cases a)
  case (WriteFile nm dat)
  with writeFile_inv [OF assms(1,2)] show ?thesis by simp
next
  case (UpdateFile nm dat)
  with writeFile_inv [OF assms(1,2), of nm dat] assms(1,2) show ?thesis
    by (simp add: updateFile_eq)
next
  case (RemoveFile nm)
  with removeFile_inv [OF assms(1,2)] show ?thesis by simp
next
  case (RenameFile nm newFile)
  with renameFile_inv [OF assms(1,2)] show ?thesis by simp
next
  case (MoveTo fromName toName)
  with moveTo_inv [OF assms(1,2)] show ?thesis by simp
next
  case (GetFileList origObj)
  from getFileList_fields(4) [of origObj s] obtain cs
    where "heap (snd (getFileList origObj s)) = heap s @ cs" ..
  with assms(1) getFileList_fields(1,3) have "recordsInv (snd (getFileList origObj s))"
    by (rule recordsInv_extend)
  moreover have "orderInv (snd (getFileList origObj s))"
    using assms(2) by (simp add: orderInv_iff filesOrder_def getFileList_fields)
  ultimately show ?thesis using GetFileList by simp
next
  case (SetProperty nm v)
  with assms(3) have "nm \<noteq> ''filesOrder''" by simp
  with assms(1,2) SetProperty show ?thesis
    by (simp add: recordsInv_iff orderInv_iff setProperty_other)
next
  case (SetProperties obj)
  show ?thesis
  proof (cases obj)
    case None
    with SetProperties assms show ?thesis by (simp add: setProperties_def)
  next
    case (Some kvs)
    with SetProperties assms(3) have "''filesOrder'' \<notin> fst ` set kvs" by simp
    with assms(1,2) SetProperties Some show ?thesis
      by (simp add: recordsInv_iff orderInv_iff setProperties_other)
  qed
next
  case (RemoveProperty nm)
  with assms(1,2) show ?thesis
    by (simp add: recordsInv_iff orderInv_iff removeProperty_other)
qed


section \<open>The bootstrap order\<close>

lemma set_insert_rev: "set (insert_rev cmp x ps) = insert x (set ps)"
  by (induction ps) auto

lemma length_insert_rev: "length (insert_rev cmp x ps) = Suc (length ps)"
  by (induction ps) auto

lemma distinct_insert_rev: "distinct ps \<Longrightarrow> x \<notin> set ps \<Longrightarrow> distinct (insert_rev cmp x ps)"
  by (induction ps) (auto simp: set_insert_rev)

lemma foldl_insert_rev:
  "set (foldl (\<lambda>acc x. insert_rev cmp x acc) acc xs) = set acc \<union> set xs \<and>
   length (foldl (\<lambda>acc x. insert_rev cmp x acc) acc xs) = length acc + length xs \<and>
   (distinct (acc @ xs) \<longrightarrow> distinct (foldl (\<lambda>acc x. insert_rev cmp x acc) acc xs))"
proof (induction xs arbitrary: acc)
  case Nil
  show ?case by simp
next
  case (Cons x xs)
  have "distinct (insert_rev cmp x acc @ xs)" if "distinct (acc @ x # xs)"
    using that by (auto simp: set_insert_rev distinct_insert_rev)
  with Cons [of "insert_rev cmp x acc"] show ?case
    by (auto simp: set_insert_rev length_insert_rev)
qed

lemma insertion_sort_perm:
  "set (insertion_sort cmp xs) = set xs" "length (insertion_sort cmp xs) = length xs"
  "distinct xs \<Longrightarrow> distinct (insertion_sort cmp xs)"
  using foldl_insert_rev [of cmp "[]" xs] by (simp_all add: insertion_sort_def)

text \<open>What \<open>strict_order_on\<close> gives for two and for three different elements.\<close>

lemma strict_order_on_total:
  "strict_order_on cmp xs \<Longrightarrow> a \<in> set xs \<Longrightarrow> b \<in> set xs \<Longrightarrow> a \<noteq> b
   \<Longrightarrow> cmp a b \<noteq> 0 \<and> (cmp a b < 0 \<longleftrightarrow> cmp b a > 0)"
  unfolding strict_order_on_def by blast

lemma strict_order_on_trans:
  "strict_order_on cmp xs \<Longrightarrow> a \<in> set xs \<Longrightarrow> b \<in> set xs \<Longrightarrow> c \<in> set xs \<Longrightarrow>
   a \<noteq> b \<Longrightarrow> b \<noteq> c \<Longrightarrow> a \<noteq> c \<Longrightarrow> cmp a b < 0 \<Longrightarrow> cmp b c < 0 \<Longrightarrow> cmp a c < 0"
  unfolding strict_order_on_def by blast

lemma sorted_insert_rev:
  assumes so: "strict_order_on cmp xs"
    and "set ps \<subseteq> set xs" and "x \<in> set xs" and "distinct ps" and "x \<notin> set ps"
    and "sorted_wrt (\<lambda>a b. cmp b a < 0) ps"
  shows "sorted_wrt (\<lambda>a b. cmp b a < 0) (insert_rev cmp x ps)"
  using assms(2-)
proof (induction ps)
  case Nil
  show ?case by simp
next
  case (Cons p ps)
  from Cons.prems have p: "p \<in> set xs" "p \<noteq> x" by auto
  note tot = strict_order_on_total [OF so]
  show ?case
  proof (cases "cmp p x > 0")
    case True
    with tot [OF Cons.prems(2) p(1)] p(2) have "cmp x p < 0" by auto
    moreover have "sorted_wrt (\<lambda>a b. cmp b a < 0) (insert_rev cmp x ps)"
      using Cons.prems by (intro Cons.IH) auto
    ultimately show ?thesis using True Cons.prems(5) by (auto simp: set_insert_rev)
  next
    case False
    with tot [OF p(1) Cons.prems(2) p(2)] have px: "cmp p x < 0" by auto
    have "cmp b x < 0" if "b \<in> set ps" for b
    proof -
      from that Cons.prems have b: "b \<in> set xs" "b \<noteq> p" "b \<noteq> x" "cmp b p < 0" by auto
      from strict_order_on_trans [OF so b(1) p(1) Cons.prems(2) b(2) p(2) b(3) b(4) px]
      show ?thesis .
    qed
    with px False Cons.prems(5) show ?thesis by auto
  qed
qed

lemma sorted_foldl_insert_rev:
  assumes so: "strict_order_on cmp xs"
    and "set acc \<union> set ys \<subseteq> set xs" and "distinct (acc @ ys)"
    and "sorted_wrt (\<lambda>a b. cmp b a < 0) acc"
  shows "sorted_wrt (\<lambda>a b. cmp b a < 0) (foldl (\<lambda>acc x. insert_rev cmp x acc) acc ys)"
  using assms(2-)
proof (induction ys arbitrary: acc)
  case Nil
  then show ?case by simp
next
  case (Cons y ys)
  have "sorted_wrt (\<lambda>a b. cmp b a < 0) (insert_rev cmp y acc)"
    using Cons.prems by (intro sorted_insert_rev [OF so]) auto
  moreover have "set (insert_rev cmp y acc) \<union> set ys \<subseteq> set xs"
    using Cons.prems(1) by (auto simp: set_insert_rev)
  moreover have "distinct (insert_rev cmp y acc @ ys)"
    using Cons.prems(2) by (auto simp: set_insert_rev distinct_insert_rev)
  ultimately show ?case using Cons.IH [of "insert_rev cmp y acc"] by simp
qed

lemma insertion_sort_ordered:
  assumes "distinct xs" and "strict_order_on cmp xs"
  shows "ordered_by cmp (insertion_sort cmp xs)"
proof -
  have "sorted_wrt (\<lambda>a b. cmp b a < 0) (foldl (\<lambda>acc x. insert_rev cmp x acc) [] xs)"
    using assms by (intro sorted_foldl_insert_rev [OF assms(2)]) auto
  then show ?thesis
    by (simp add: ordered_by_def insertion_sort_def sorted_wrt_rev)
qed

lemma insertion_sort_contract: "sort_contract insertion_sort"
  unfolding sort_contract_def
  by (intro allI conjI impI) (simp_all add: insertion_sort_perm insertion_sort_ordered)

lemma sort_contract_perm:
  assumes "sort_contract srt"
  shows "set (srt cmp xs) = set xs" and "length (srt cmp xs) = length xs"
    and "distinct xs \<Longrightarrow> distinct (srt cmp xs)"
proof -
  from assms show s: "set (srt cmp xs) = set xs" and l: "length (srt cmp xs) = length xs"
    unfolding sort_contract_def by blast+
  assume "distinct xs"
  then have "card (set (srt cmp xs)) = length (srt cmp xs)"
    by (simp add: s l distinct_card)
  then show "distinct (srt cmp xs)" by (rule card_distinct)
qed

lemma sort_contract_ordered:
  "sort_contract srt \<Longrightarrow> distinct xs \<Longrightarrow> strict_order_on cmp xs \<Longrightarrow> ordered_by cmp (srt cmp xs)"
  unfolding sort_contract_def by blast

subsection \<open>The scan of the directory\<close>

lemma scan_step:
  "scan_entry (idx, filename, body) (mi, fs, h, ok) =
     (if idx > mi then idx else mi,
      if filename = ''__proto__'' then fs else AList.update filename (length h) fs,
      h @ [\<lparr>index = idx, name = filename, data = body, selected = JUndefined, flags = idle\<rparr>],
      ok \<and> filename \<noteq> ''__proto__'')"
  by (simp add: scan_entry_def)

lemma scan_inv:
  assumes "fold scan_entry entries (mi, fs, h, ok) = (mi', fs', h', ok')"
    and "distinct (map fst fs)"
    and "\<And>n r. map_of fs n = Some r \<Longrightarrow> r < length h \<and> name (h ! r) = n \<and> index (h ! r) \<le> mi"
  shows "distinct (map fst fs') \<and>
         (\<forall>n r. map_of fs' n = Some r \<longrightarrow> r < length h' \<and> name (h' ! r) = n \<and> index (h' ! r) \<le> mi')"
  using assms
proof (induction entries arbitrary: mi fs h ok)
  case Nil
  then show ?case by simp
next
  case (Cons e entries)
  obtain idx filename body where e: "e = (idx, filename, body)" by (cases e)
  let ?mi = "if idx > mi then idx else mi"
  let ?fs = "if filename = ''__proto__'' then fs else AList.update filename (length h) fs"
  let ?h = "h @ [\<lparr>index = idx, name = filename, data = body, selected = JUndefined, flags = idle\<rparr>]"
  let ?ok = "ok \<and> filename \<noteq> ''__proto__''"
  have step: "scan_entry e (mi, fs, h, ok) = (?mi, ?fs, ?h, ?ok)" by (simp add: scan_step e)
  have "r < length ?h \<and> name (?h ! r) = n \<and> index (?h ! r) \<le> ?mi" if "map_of ?fs n = Some r" for n r
  proof (cases "n = filename \<and> filename \<noteq> ''__proto__''")
    case True
    with that have "r = length h" by (simp add: update_conv')
    with True show ?thesis by simp
  next
    case False
    with that have "map_of fs n = Some r" by (auto simp: update_conv' split: if_splits)
    from Cons.prems(3) [OF this] show ?thesis by (auto simp: nth_append)
  qed
  moreover have "distinct (map fst ?fs)" using Cons.prems(2) by (simp add: distinct_update)
  moreover have "fold scan_entry entries (?mi, ?fs, ?h, ?ok) = (mi', fs', h', ok')"
    using Cons.prems(1) step by simp
  ultimately show ?case by (intro Cons.IH [of ?mi ?fs ?h ?ok]) blast+
qed

lemma scan_frame:
  assumes "fold scan_entry entries (mi, fs, h, ok) = (mi', fs', h', ok')"
  shows "(\<exists>cs. h' = h @ cs) \<and>
         (k \<notin> (fst \<circ> snd) ` set entries \<longrightarrow> map_of fs' k = map_of fs k) \<and>
         fst ` set fs' = fst ` set fs \<union> ((fst \<circ> snd) ` set entries - {''__proto__''}) \<and>
         ok' = (ok \<and> ''__proto__'' \<notin> (fst \<circ> snd) ` set entries)"
  using assms
proof (induction entries arbitrary: mi fs h ok)
  case Nil
  then show ?case by simp
next
  case (Cons e entries)
  obtain idx filename body where e: "e = (idx, filename, body)" by (cases e)
  let ?mi = "if idx > mi then idx else mi"
  let ?fs = "if filename = ''__proto__'' then fs else AList.update filename (length h) fs"
  let ?h = "h @ [\<lparr>index = idx, name = filename, data = body, selected = JUndefined, flags = idle\<rparr>]"
  let ?ok = "ok \<and> filename \<noteq> ''__proto__''"
  have step: "scan_entry e (mi, fs, h, ok) = (?mi, ?fs, ?h, ?ok)" by (simp add: scan_step e)
  then have "fold scan_entry entries (?mi, ?fs, ?h, ?ok) = (mi', fs', h', ok')"
    using Cons.prems by simp
  from Cons.IH [OF this] obtain cs where ih: "h' = ?h @ cs"
    "k \<notin> (fst \<circ> snd) ` set entries \<longrightarrow> map_of fs' k = map_of ?fs k"
    "fst ` set fs' = fst ` set ?fs \<union> ((fst \<circ> snd) ` set entries - {''__proto__''})"
    "ok' = (?ok \<and> ''__proto__'' \<notin> (fst \<circ> snd) ` set entries)"
    by blast
  have "\<exists>cs. h' = h @ cs" using ih(1) by simp
  moreover have "k \<notin> (fst \<circ> snd) ` set (e # entries) \<longrightarrow> map_of fs' k = map_of fs k"
    using ih(2) by (auto simp: e update_conv')
  moreover have "fst ` set fs' = fst ` set fs \<union> ((fst \<circ> snd) ` set (e # entries) - {''__proto__''})"
    using ih(3) by (auto simp: e dom_update)
  moreover have "ok' = (ok \<and> ''__proto__'' \<notin> (fst \<circ> snd) ` set (e # entries))"
    using ih(4) by (auto simp: e)
  ultimately show ?case by blast
qed

lemma scan_index:
  assumes "fold scan_entry entries (mi, fs, h, ok) = (mi', fs', h', ok')"
    and "distinct (map (fst \<circ> snd) entries)"
    and "(idx, k, body) \<in> set entries" and "k \<noteq> ''__proto__''"
  shows "\<exists>r. map_of fs' k = Some r \<and> index (h' ! r) = idx \<and> data (h' ! r) = body"
  using assms
proof (induction entries arbitrary: mi fs h ok)
  case Nil
  then show ?case by simp
next
  case (Cons e entries)
  obtain idx' filename body' where e: "e = (idx', filename, body')" by (cases e)
  let ?mi = "if idx' > mi then idx' else mi"
  let ?fs = "if filename = ''__proto__'' then fs else AList.update filename (length h) fs"
  let ?h = "h @ [\<lparr>index = idx', name = filename, data = body', selected = JUndefined, flags = idle\<rparr>]"
  let ?ok = "ok \<and> filename \<noteq> ''__proto__''"
  have step: "scan_entry e (mi, fs, h, ok) = (?mi, ?fs, ?h, ?ok)" by (simp add: scan_step e)
  then have rest: "fold scan_entry entries (?mi, ?fs, ?h, ?ok) = (mi', fs', h', ok')"
    using Cons.prems by simp
  show ?case
  proof (cases "(idx, k, body) = e")
    case True
    with e have eq: "idx' = idx" "filename = k" "body' = body" by simp_all
    from Cons.prems(2) have "k \<notin> (fst \<circ> snd) ` set entries" by (simp add: e eq)
    with scan_frame [OF rest, of k] obtain cs where "h' = ?h @ cs" "map_of fs' k = map_of ?fs k"
      by blast
    then show ?thesis using Cons.prems(4) by (simp add: eq update_conv' nth_append)
  next
    case False
    with Cons.prems(3) have "(idx, k, body) \<in> set entries" by simp
    with Cons.prems(2,4) show ?thesis by (intro Cons.IH [OF rest]) simp_all
  qed
qed

lemma scanned_inv: "recordsInv (scanned entries doc)"
proof -
  obtain mi fs h ok where f: "fold scan_entry entries (- 1, [], [], True) = (mi, fs, h, ok)"
    by (cases "fold scan_entry entries (- 1, [], [], True)")
  from scan_inv [OF f] show ?thesis by (simp add: scanned_def f recordsInv_iff)
qed

lemma scanned_modelled:
  "modelled (scanned entries doc) \<longleftrightarrow>
     ''__proto__'' \<notin> (fst \<circ> snd) ` set entries \<and> (\<exists>props. doc = JObj props)"
proof -
  obtain mi fs h ok where f: "fold scan_entry entries (- 1, [], [], True) = (mi, fs, h, ok)"
    by (cases "fold scan_entry entries (- 1, [], [], True)")
  from scan_frame [OF f, of "[]"] show ?thesis
    by (auto simp: scanned_def f property_map_def split: jsval.splits)
qed

lemma scanned_keys:
  "fst ` set (files (scanned entries doc)) = (fst \<circ> snd) ` set entries - {''__proto__''}"
proof -
  obtain mi fs h ok where f: "fold scan_entry entries (- 1, [], [], True) = (mi, fs, h, ok)"
    by (cases "fold scan_entry entries (- 1, [], [], True)")
  from scan_frame [OF f, of "[]"] show ?thesis by (simp add: scanned_def f)
qed

lemma scanned_properties: "properties (scanned entries (JObj props)) = props"
  by (simp add: scanned_def property_map_def split: prod.splits)

lemma scanned_index:
  assumes "distinct (map (fst \<circ> snd) entries)" and "(idx, k, body) \<in> set entries"
    and "k \<noteq> ''__proto__''"
  shows "file_index (scanned entries doc) k = idx"
proof -
  obtain mi fs h ok where f: "fold scan_entry entries (- 1, [], [], True) = (mi, fs, h, ok)"
    by (cases "fold scan_entry entries (- 1, [], [], True)")
  from scan_index [OF f assms] show ?thesis by (auto simp: scanned_def f file_index_def)
qed

lemma Storage_fields:
  "files (Storage srt entries doc) = files (scanned entries doc)"
  "heap (Storage srt entries doc) = heap (scanned entries doc)"
  "maxIndex (Storage srt entries doc) = maxIndex (scanned entries doc)"
  "modelled (Storage srt entries doc) = modelled (scanned entries doc)"
  "filesOrder (Storage srt entries doc) =
     JArr (map JStr (bootstrap_order srt (persisted_order (properties (scanned entries doc)))
                       (scanned entries doc) (object_keys (files (scanned entries doc)))))"
  "properties (Storage srt entries doc) =
     AList.update ''filesOrder''
       (JArr (map JStr (bootstrap_order srt (persisted_order (properties (scanned entries doc)))
                          (scanned entries doc) (object_keys (files (scanned entries doc))))))
       (properties (scanned entries doc))"
  by (simp_all add: Storage_def Let_def setProperty_def assign_property_def filesOrder_def
        update_conv')

lemma Storage_inv:
  assumes "sort_contract srt"
  shows "recordsInv (Storage srt entries doc) \<and> orderInv (Storage srt entries doc)"
proof -
  let ?c = "scanned entries doc"
  let ?order = "bootstrap_order srt (persisted_order (properties ?c)) ?c (object_keys (files ?c))"
  have rec: "recordsInv ?c" by (rule scanned_inv)
  then have d: "distinct (object_keys (files ?c))"
    by (simp add: recordsInv_iff object_keys_distinct)
  have "recordsInv (Storage srt entries doc)"
    using rec by (simp add: recordsInv_iff Storage_fields)
  moreover have "orderInv (Storage srt entries doc)"
    unfolding orderInv_iff
  proof (intro exI conjI)
    show "filesOrder (Storage srt entries doc) = JArr (map JStr ?order)" by (rule Storage_fields)
    show "distinct (map JStr ?order)"
      using d by (simp add: distinct_map bootstrap_order_def sort_contract_perm [OF assms] inj_on_def)
    show "set (map JStr ?order) = JStr ` fst ` set (files (Storage srt entries doc))"
      by (simp add: bootstrap_order_def sort_contract_perm [OF assms] Storage_fields)
  qed
  ultimately show ?thesis ..
qed

lemma order_cmp_None:
  "order_cmp None cache cur nxt = (if file_index cache cur > file_index cache nxt then 1 else - 1)"
  by (simp add: order_cmp_def)

lemma order_cmp_both:
  "JStr cur \<in> set order \<Longrightarrow> JStr nxt \<in> set order \<Longrightarrow>
     order_cmp (Some order) cache cur nxt =
       (if indexOf order (JStr cur) > indexOf order (JStr nxt) then 1 else - 1)"
  by (simp add: order_cmp_def Let_def indexOf_absent)

lemma order_cmp_fallback:
  "JStr cur \<notin> set order \<or> JStr nxt \<notin> set order \<Longrightarrow>
     order_cmp (Some order) cache cur nxt =
       (if file_index cache cur > file_index cache nxt then 1 else - 1)"
  by (auto simp: order_cmp_def Let_def indexOf_absent)

subsection \<open>Comparators that compare a rank\<close>

lemma rank_strict_order:
  fixes f :: "'a \<Rightarrow> int"
  assumes "inj_on f (set xs)"
    and "\<And>a b. a \<in> set xs \<Longrightarrow> b \<in> set xs \<Longrightarrow> cmp a b = (if f a > f b then 1 else - 1)"
  shows "strict_order_on cmp xs"
  unfolding strict_order_on_def
proof (intro conjI ballI impI)
  fix a b assume ab: "a \<in> set xs" "b \<in> set xs" "a \<noteq> b"
  with assms(1) have "f a \<noteq> f b" by (auto dest: inj_onD)
  with ab assms(2) show "cmp a b \<noteq> 0" and "(cmp a b < 0) = (0 < cmp b a)" by auto
next
  fix a b c
  assume "a \<in> set xs" "b \<in> set xs" "c \<in> set xs"
    and "a \<noteq> b \<and> b \<noteq> c \<and> a \<noteq> c \<and> cmp a b < 0 \<and> cmp b c < 0"
  with assms(2) [of a b] assms(2) [of b c] assms(2) [of a c] show "cmp a c < 0"
    by (auto split: if_splits)
qed

lemma sorted_wrt_distinct:
  "distinct ys \<Longrightarrow> sorted_wrt P ys \<Longrightarrow> sorted_wrt (\<lambda>a b. P a b \<and> a \<noteq> b) ys"
  by (induction ys) auto

lemma rank_ordered:
  fixes f :: "'a \<Rightarrow> int"
  assumes "inj_on f (set xs)"
    and "\<And>a b. a \<in> set xs \<Longrightarrow> b \<in> set xs \<Longrightarrow> cmp a b = (if f a > f b then 1 else - 1)"
    and "distinct ys" and "set ys \<subseteq> set xs" and "ordered_by cmp ys"
  shows "sorted_wrt (\<lambda>a b. f a < f b) ys"
proof -
  from assms(3,5) have "sorted_wrt (\<lambda>a b. cmp a b < 0 \<and> a \<noteq> b) ys"
    unfolding ordered_by_def by (rule sorted_wrt_distinct)
  then show ?thesis
  proof (rule sorted_wrt_mono_rel [rotated])
    fix a b assume ab: "a \<in> set ys" "b \<in> set ys" "cmp a b < 0 \<and> a \<noteq> b"
    with assms(4) have mem: "a \<in> set xs" "b \<in> set xs" by auto
    with assms(1) ab(3) have "f a \<noteq> f b" by (auto dest: inj_onD)
    with assms(2) [OF mem] ab(3) show "f a < f b" by (auto split: if_splits)
  qed
qed

lemma indexOf_inj:
  assumes "\<forall>k \<in> set keys. JStr k \<in> set po"
  shows "inj_on (\<lambda>k. indexOf po (JStr k)) (set keys)"
proof (rule inj_onI)
  fix a b assume ab: "a \<in> set keys" "b \<in> set keys" "indexOf po (JStr a) = indexOf po (JStr b)"
  from ab(1) assms have "JStr a \<in> set po" by blast
  then obtain i where i: "indexOf po (JStr a) = int i" "po ! i = JStr a" by (rule indexOf_position)
  from ab(2) assms have "JStr b \<in> set po" by blast
  then obtain j where j: "indexOf po (JStr b) = int j" "po ! j = JStr b" by (rule indexOf_position)
  from ab(3) i j show "a = b" by simp
qed

text \<open>
  C5 (amended). What the constructor does, for a properties document that is an object
  and a directory without an entry named \<^verbatim>\<open>__proto__\<close>. The keys of the table are the
  names of the entries, and the index the comparator reads for a key is the index of the
  record the key leads to, that is the index in the name of the directory entry (when no
  two entries decode to the same name). The comparator
  compares two names by their positions in the persisted array when the document has an
  array under \<^verbatim>\<open>filesOrder\<close> and both names occur in it, and by their indices otherwise.
  The order the constructor stores under \<^verbatim>\<open>filesOrder\<close> holds each key once. Whenever the
  comparator orders the keys strictly and transitively, the stored order has every
  pair in the order the comparator decides; in particular the keys are in ascending
  index order when there is no persisted array and the indices differ, and in the order
  of the persisted array when it holds every key.
\<close>

theorem bootstrap_order_by_priority:
  assumes "sort_contract srt" and "modelled (Storage srt entries doc)"
    and "cache = scanned entries doc" and "keys = object_keys (files cache)"
    and "cmp = order_cmp (persisted_order (properties cache)) cache"
  shows "\<exists>props order.
      doc = JObj props \<and> properties cache = props \<and>
      set keys = (fst \<circ> snd) ` set entries \<and> distinct keys \<and>
      (\<forall>k r. map_of (files cache) k = Some r \<longrightarrow> file_index cache k = index (heap cache ! r)) \<and>
      (distinct (map (fst \<circ> snd) entries) \<longrightarrow>
         (\<forall>(idx, k, body) \<in> set entries. file_index cache k = idx)) \<and>
      persisted_order props =
        (case map_of props ''filesOrder'' of Some (JArr po) \<Rightarrow> Some po | _ \<Rightarrow> None) \<and>
      (\<forall>cur nxt. cmp cur nxt =
         (case persisted_order props of
            Some po \<Rightarrow>
              if JStr cur \<in> set po \<and> JStr nxt \<in> set po
              then (if indexOf po (JStr cur) > indexOf po (JStr nxt) then 1 else - 1)
              else (if file_index cache cur > file_index cache nxt then 1 else - 1)
          | None \<Rightarrow> (if file_index cache cur > file_index cache nxt then 1 else - 1))) \<and>
      filesOrder (Storage srt entries doc) = JArr (map JStr order) \<and>
      properties (Storage srt entries doc) =
        AList.update ''filesOrder'' (JArr (map JStr order)) props \<and>
      getProperty ''filesOrder'' (Storage srt entries doc) = Own (JArr (map JStr order)) \<and>
      distinct order \<and> set order = set keys \<and>
      (strict_order_on cmp keys \<longrightarrow> ordered_by cmp order) \<and>
      (persisted_order props = None \<and> distinct (map (file_index cache) keys) \<longrightarrow>
         sorted_wrt (\<lambda>a b. file_index cache a < file_index cache b) order) \<and>
      (\<forall>po. persisted_order props = Some po \<and> (\<forall>k \<in> set keys. JStr k \<in> set po) \<longrightarrow>
         sorted_wrt (\<lambda>a b. indexOf po (JStr a) < indexOf po (JStr b)) order)"
proof -
  from assms(2) have m: "''__proto__'' \<notin> (fst \<circ> snd) ` set entries"
    and "\<exists>props. doc = JObj props"
    by (simp_all add: Storage_fields scanned_modelled)
  then obtain props where doc: "doc = JObj props" by blast
  define order where "order = bootstrap_order srt (persisted_order (properties cache)) cache keys"
  have props: "properties cache = props" by (simp add: assms(3) doc scanned_properties)
  have keys: "set keys = (fst \<circ> snd) ` set entries"
    using m scanned_keys [of entries doc] by (simp add: assms(3,4))
  have dk: "distinct keys"
    using scanned_inv [of entries doc] by (simp add: assms(3,4) recordsInv_iff object_keys_distinct)
  have pin: "\<forall>k r. map_of (files cache) k = Some r \<longrightarrow> file_index cache k = index (heap cache ! r)"
    by (simp add: file_index_def)
  have idx: "distinct (map (fst \<circ> snd) entries) \<longrightarrow>
      (\<forall>(idx, k, body) \<in> set entries. file_index cache k = idx)"
  proof (intro impI ballI, clarify)
    fix idx k body
    assume d: "distinct (map (fst \<circ> snd) entries)" and e: "(idx, k, body) \<in> set entries"
    from e m have "k \<noteq> ''__proto__''" by force
    with d e show "file_index cache k = idx" unfolding assms(3) by (rule scanned_index)
  qed
  have cmp: "\<forall>cur nxt. cmp cur nxt =
         (case persisted_order props of
            Some po \<Rightarrow>
              if JStr cur \<in> set po \<and> JStr nxt \<in> set po
              then (if indexOf po (JStr cur) > indexOf po (JStr nxt) then 1 else - 1)
              else (if file_index cache cur > file_index cache nxt then 1 else - 1)
          | None \<Rightarrow> (if file_index cache cur > file_index cache nxt then 1 else - 1))"
  proof (intro allI)
    fix cur nxt
    show "cmp cur nxt =
         (case persisted_order props of
            Some po \<Rightarrow>
              if JStr cur \<in> set po \<and> JStr nxt \<in> set po
              then (if indexOf po (JStr cur) > indexOf po (JStr nxt) then 1 else - 1)
              else (if file_index cache cur > file_index cache nxt then 1 else - 1)
          | None \<Rightarrow> (if file_index cache cur > file_index cache nxt then 1 else - 1))"
    proof (cases "persisted_order props")
      case None
      then show ?thesis by (simp add: assms(5) props order_cmp_None)
    next
      case (Some po)
      then show ?thesis
        using order_cmp_both [of cur po nxt cache] order_cmp_fallback [of cur po nxt cache]
        by (auto simp: assms(5) props)
    qed
  qed
  have fo: "filesOrder (Storage srt entries doc) = JArr (map JStr order)"
    by (simp add: Storage_fields order_def assms(3,4))
  have stored: "properties (Storage srt entries doc) =
      AList.update ''filesOrder'' (JArr (map JStr order)) props"
    using props by (simp add: Storage_fields order_def assms(3,4))
  then have got: "getProperty ''filesOrder'' (Storage srt entries doc) = Own (JArr (map JStr order))"
    by (simp add: getProperty_def table_get_def update_conv')
  have ord: "order = srt cmp keys" by (simp add: order_def bootstrap_order_def assms(5))
  have perm: "distinct order" "set order = set keys"
    using dk by (simp_all add: ord sort_contract_perm [OF assms(1)])
  have strict: "ordered_by cmp order" if "strict_order_on cmp keys"
    unfolding ord using assms(1) dk that by (rule sort_contract_ordered)
  have byIndex: "sorted_wrt (\<lambda>a b. file_index cache a < file_index cache b) order"
    if "persisted_order props = None" "distinct (map (file_index cache) keys)"
  proof -
    from that(2) have inj: "inj_on (file_index cache) (set keys)" by (simp add: distinct_map)
    have c: "cmp a b = (if file_index cache a > file_index cache b then 1 else - 1)"
      if "a \<in> set keys" "b \<in> set keys" for a b
      using cmp \<open>persisted_order props = None\<close> by simp
    have "strict_order_on cmp keys" using inj c by (rule rank_strict_order)
    then have o: "ordered_by cmp order" by (rule strict)
    have sub: "set order \<subseteq> set keys" by (simp add: perm)
    from inj c perm(1) sub o show ?thesis by (rule rank_ordered)
  qed
  have byOrder: "sorted_wrt (\<lambda>a b. indexOf po (JStr a) < indexOf po (JStr b)) order"
    if "persisted_order props = Some po" "\<forall>k \<in> set keys. JStr k \<in> set po" for po
  proof -
    from that(2) have inj: "inj_on (\<lambda>k. indexOf po (JStr k)) (set keys)" by (rule indexOf_inj)
    have c: "cmp a b = (if indexOf po (JStr a) > indexOf po (JStr b) then 1 else - 1)"
      if "a \<in> set keys" "b \<in> set keys" for a b
      using cmp \<open>persisted_order props = Some po\<close> \<open>\<forall>k \<in> set keys. JStr k \<in> set po\<close> that by simp
    have "strict_order_on cmp keys" using inj c by (rule rank_strict_order)
    then have o: "ordered_by cmp order" by (rule strict)
    have sub: "set order \<subseteq> set keys" by (simp add: perm)
    from inj c perm(1) sub o show ?thesis by (rule rank_ordered)
  qed
  show ?thesis
    apply (rule exI [of _ props], rule exI [of _ order])
    using doc props keys dk pin idx cmp fo stored got perm strict byIndex byOrder
    by (simp add: persisted_order_def)
qed

text \<open>
  A comparator that does not order the keys: the directory holds \<^verbatim>\<open>2.a\<close>, \<^verbatim>\<open>0.b\<close> and \<^verbatim>\<open>1.c\<close>
  and the properties document holds the order \<^verbatim>\<open>a, b\<close>. The comparator puts \<^verbatim>\<open>a\<close> before
  \<^verbatim>\<open>b\<close> (both are in the persisted array), \<^verbatim>\<open>b\<close> before \<^verbatim>\<open>c\<close> and \<^verbatim>\<open>c\<close> before \<^verbatim>\<open>a\<close> (by
  index, \<^verbatim>\<open>c\<close> not being in the array). None of the six arrangements of the three keys
  has every pair in the order that the persisted positions, or else the indices, decide
  for it; so whatever the engine's sort returns, the stored order has such a pair the
  other way round. With insertion sort it is \<^verbatim>\<open>a, b, c\<close>, where \<^verbatim>\<open>a\<close> (index 2) stands
  before \<^verbatim>\<open>c\<close> (index 1).
\<close>

theorem bootstrap_order_cycle_counterexample:
  "object_keys (files (scanned [(2, ''a'', JStr []), (0, ''b'', JStr []), (1, ''c'', JStr [])]
      (JObj [(''filesOrder'', JArr [JStr ''a'', JStr ''b''])]))) = [''a'', ''b'', ''c''] \<and>
   persisted_order (properties (scanned [(2, ''a'', JStr []), (0, ''b'', JStr []), (1, ''c'', JStr [])]
      (JObj [(''filesOrder'', JArr [JStr ''a'', JStr ''b''])]))) = Some [JStr ''a'', JStr ''b''] \<and>
   order_cmp (Some [JStr ''a'', JStr ''b''])
     (scanned [(2, ''a'', JStr []), (0, ''b'', JStr []), (1, ''c'', JStr [])]
        (JObj [(''filesOrder'', JArr [JStr ''a'', JStr ''b''])])) ''a'' ''b'' = - 1 \<and>
   order_cmp (Some [JStr ''a'', JStr ''b''])
     (scanned [(2, ''a'', JStr []), (0, ''b'', JStr []), (1, ''c'', JStr [])]
        (JObj [(''filesOrder'', JArr [JStr ''a'', JStr ''b''])])) ''b'' ''c'' = - 1 \<and>
   order_cmp (Some [JStr ''a'', JStr ''b''])
     (scanned [(2, ''a'', JStr []), (0, ''b'', JStr []), (1, ''c'', JStr [])]
        (JObj [(''filesOrder'', JArr [JStr ''a'', JStr ''b''])])) ''c'' ''a'' = - 1 \<and>
   \<not> ordered_by (order_cmp (Some [JStr ''a'', JStr ''b''])
     (scanned [(2, ''a'', JStr []), (0, ''b'', JStr []), (1, ''c'', JStr [])]
        (JObj [(''filesOrder'', JArr [JStr ''a'', JStr ''b''])]))) [''a'', ''b'', ''c''] \<and>
   \<not> ordered_by (order_cmp (Some [JStr ''a'', JStr ''b''])
     (scanned [(2, ''a'', JStr []), (0, ''b'', JStr []), (1, ''c'', JStr [])]
        (JObj [(''filesOrder'', JArr [JStr ''a'', JStr ''b''])]))) [''a'', ''c'', ''b''] \<and>
   \<not> ordered_by (order_cmp (Some [JStr ''a'', JStr ''b''])
     (scanned [(2, ''a'', JStr []), (0, ''b'', JStr []), (1, ''c'', JStr [])]
        (JObj [(''filesOrder'', JArr [JStr ''a'', JStr ''b''])]))) [''b'', ''a'', ''c''] \<and>
   \<not> ordered_by (order_cmp (Some [JStr ''a'', JStr ''b''])
     (scanned [(2, ''a'', JStr []), (0, ''b'', JStr []), (1, ''c'', JStr [])]
        (JObj [(''filesOrder'', JArr [JStr ''a'', JStr ''b''])]))) [''b'', ''c'', ''a''] \<and>
   \<not> ordered_by (order_cmp (Some [JStr ''a'', JStr ''b''])
     (scanned [(2, ''a'', JStr []), (0, ''b'', JStr []), (1, ''c'', JStr [])]
        (JObj [(''filesOrder'', JArr [JStr ''a'', JStr ''b''])]))) [''c'', ''a'', ''b''] \<and>
   \<not> ordered_by (order_cmp (Some [JStr ''a'', JStr ''b''])
     (scanned [(2, ''a'', JStr []), (0, ''b'', JStr []), (1, ''c'', JStr [])]
        (JObj [(''filesOrder'', JArr [JStr ''a'', JStr ''b''])]))) [''c'', ''b'', ''a''] \<and>
   filesOrder (Storage insertion_sort [(2, ''a'', JStr []), (0, ''b'', JStr []), (1, ''c'', JStr [])]
      (JObj [(''filesOrder'', JArr [JStr ''a'', JStr ''b''])])) =
     JArr [JStr ''a'', JStr ''b'', JStr ''c''] \<and>
   file_index (scanned [(2, ''a'', JStr []), (0, ''b'', JStr []), (1, ''c'', JStr [])]
      (JObj [(''filesOrder'', JArr [JStr ''a'', JStr ''b''])])) ''a'' = 2 \<and>
   file_index (scanned [(2, ''a'', JStr []), (0, ''b'', JStr []), (1, ''c'', JStr [])]
      (JObj [(''filesOrder'', JArr [JStr ''a'', JStr ''b''])])) ''c'' = 1"
  by code_simp

theorem bootstrap_order_by_priority_witness:
  "sort_contract insertion_sort \<and>
   modelled (Storage insertion_sort [(3, ''a'', JStr ''x''), (1, ''b'', JStr []), (2, ''c'', JStr ''z'')]
      (JObj [(''filesOrder'', JArr [JStr ''c'', JStr ''zz'', JStr ''a''])])) \<and>
   object_keys (files (scanned [(3, ''a'', JStr ''x''), (1, ''b'', JStr []), (2, ''c'', JStr ''z'')]
      (JObj [(''filesOrder'', JArr [JStr ''c'', JStr ''zz'', JStr ''a''])]))) = [''a'', ''b'', ''c''] \<and>
   strict_order_on
     (order_cmp (Some [JStr ''c'', JStr ''zz'', JStr ''a''])
        (scanned [(3, ''a'', JStr ''x''), (1, ''b'', JStr []), (2, ''c'', JStr ''z'')]
           (JObj [(''filesOrder'', JArr [JStr ''c'', JStr ''zz'', JStr ''a''])])))
     [''a'', ''b'', ''c''] \<and>
   (\<exists>order.
      filesOrder (Storage insertion_sort [(3, ''a'', JStr ''x''), (1, ''b'', JStr []), (2, ''c'', JStr ''z'')]
        (JObj [(''filesOrder'', JArr [JStr ''c'', JStr ''zz'', JStr ''a''])])) = JArr (map JStr order) \<and>
      set order = {''a'', ''b'', ''c''} \<and>
      ordered_by
        (order_cmp (Some [JStr ''c'', JStr ''zz'', JStr ''a''])
           (scanned [(3, ''a'', JStr ''x''), (1, ''b'', JStr []), (2, ''c'', JStr ''z'')]
              (JObj [(''filesOrder'', JArr [JStr ''c'', JStr ''zz'', JStr ''a''])])))
        order) \<and>
   filesOrder (Storage insertion_sort [(3, ''a'', JStr ''x''), (1, ''b'', JStr []), (2, ''c'', JStr ''z'')]
      (JObj [(''filesOrder'', JArr [JStr ''c'', JStr ''zz'', JStr ''a''])])) =
     JArr [JStr ''b'', JStr ''c'', JStr ''a''] \<and>
   file_index (scanned [(3, ''a'', JStr ''x''), (1, ''b'', JStr []), (2, ''c'', JStr ''z'')]
      (JObj [(''filesOrder'', JArr [JStr ''c'', JStr ''zz'', JStr ''a''])])) ''a'' = 3 \<and>
   modelled (Storage insertion_sort [(3, ''a'', JStr ''x''), (1, ''b'', JStr []), (2, ''c'', JStr ''z'')]
      (JObj [])) \<and>
   (\<exists>order.
      filesOrder (Storage insertion_sort [(3, ''a'', JStr ''x''), (1, ''b'', JStr []), (2, ''c'', JStr ''z'')]
        (JObj [])) = JArr (map JStr order) \<and>
      sorted_wrt (\<lambda>a b. file_index (scanned [(3, ''a'', JStr ''x''), (1, ''b'', JStr []), (2, ''c'', JStr ''z'')]
                            (JObj [])) a
                        < file_index (scanned [(3, ''a'', JStr ''x''), (1, ''b'', JStr []), (2, ''c'', JStr ''z'')]
                            (JObj [])) b) order) \<and>
   filesOrder (Storage insertion_sort [(3, ''a'', JStr ''x''), (1, ''b'', JStr []), (2, ''c'', JStr ''z'')]
      (JObj [])) = JArr [JStr ''b'', JStr ''c'', JStr ''a'']"
proof -
  let ?E = "[(3, ''a'', JStr ''x''), (1, ''b'', JStr []), (2, ''c'', JStr ''z'')]"
  let ?D = "JObj [(''filesOrder'', JArr [JStr ''c'', JStr ''zz'', JStr ''a''])]"
  let ?C = "scanned ?E ?D"
  let ?cmp = "order_cmp (Some [JStr ''c'', JStr ''zz'', JStr ''a'']) ?C"
  let ?N = "scanned ?E (JObj [])"
  have m: "modelled (Storage insertion_sort ?E ?D)" by code_simp
  have keys: "object_keys (files ?C) = [''a'', ''b'', ''c'']" by code_simp
  have po: "persisted_order (properties ?C) = Some [JStr ''c'', JStr ''zz'', JStr ''a'']"
    by code_simp
  have so: "strict_order_on ?cmp [''a'', ''b'', ''c'']" by code_simp
  have fo: "filesOrder (Storage insertion_sort ?E ?D) = JArr [JStr ''b'', JStr ''c'', JStr ''a'']"
    by code_simp
  have ix: "file_index ?C ''a'' = 3" by code_simp
  have m0: "modelled (Storage insertion_sort ?E (JObj []))" by code_simp
  have keys0: "object_keys (files ?N) = [''a'', ''b'', ''c'']" by code_simp
  have d0: "distinct (map (file_index ?N) [''a'', ''b'', ''c''])" by code_simp
  have p0: "persisted_order [] = None" by code_simp
  have fo0: "filesOrder (Storage insertion_sort ?E (JObj [])) = JArr [JStr ''b'', JStr ''c'', JStr ''a'']"
    by code_simp
  from bootstrap_order_by_priority [OF insertion_sort_contract m refl refl refl]
  obtain props order where
    o: "filesOrder (Storage insertion_sort ?E ?D) = JArr (map JStr order)"
      "set order = set (object_keys (files ?C))"
      "strict_order_on (order_cmp (persisted_order (properties ?C)) ?C) (object_keys (files ?C)) \<longrightarrow>
         ordered_by (order_cmp (persisted_order (properties ?C)) ?C) order"
    by blast
  from o(2,3) so have first: "set order = {''a'', ''b'', ''c''}" "ordered_by ?cmp order"
    by (auto simp: keys po)
  from bootstrap_order_by_priority [OF insertion_sort_contract m0 refl refl refl]
  obtain props0 order0 where
    o0: "JObj [] = JObj props0"
      "filesOrder (Storage insertion_sort ?E (JObj [])) = JArr (map JStr order0)"
      "persisted_order props0 = None \<and> distinct (map (file_index ?N) (object_keys (files ?N))) \<longrightarrow>
         sorted_wrt (\<lambda>a b. file_index ?N a < file_index ?N b) order0"
    by blast
  from o0(1) have "props0 = []" by simp
  with o0(3) d0 p0 have second: "sorted_wrt (\<lambda>a b. file_index ?N a < file_index ?N b) order0"
    by (simp add: keys0)
  show ?thesis
    using insertion_sort_contract m keys so o(1) first fo ix m0 o0(2) second fo0 by blast
qed

section \<open>A state that left the model stays outside it\<close>

lemma wf_priv_sticky: "modelled (writeFile_priv k s) \<Longrightarrow> modelled s"
  by (auto simp: writeFile_priv_def Let_def split: found.splits prod.splits if_splits)

lemma writeFile_sticky: "modelled (snd (writeFile nm dat s)) \<Longrightarrow> modelled s"
proof (cases rule: writeFile_cases [where nm = nm and s = s])
  case falsy
  assume "modelled (snd (writeFile nm dat s))"
  with falsy show ?thesis by (simp add: writeFile_def)
next
  case (existing r)
  assume "modelled (snd (writeFile nm dat s))"
  with writeFile_existing(8) [OF existing] show ?thesis by simp
next
  case inherited
  assume "modelled (snd (writeFile nm dat s))"
  with writeFile_inherited [OF inherited] show ?thesis by simp
next
  case new
  assume m: "modelled (snd (writeFile nm dat s))"
  show ?thesis
  proof (cases "filesOrder s")
    case (JArr order)
    from writeFile_new(10) [OF new JArr] m show ?thesis by simp
  qed (use m new in \<open>simp_all add: writeFile_def Let_def\<close>)
qed

lemma removeFile_sticky: "modelled (snd (removeFile nm s)) \<Longrightarrow> modelled s"
  by (auto simp: removeFile_def Let_def split: found.splits jsval.splits if_splits)

lemma renameFile_sticky: "modelled (snd (renameFile nm newFile s)) \<Longrightarrow> modelled s"
  by (auto simp: renameFile_def Let_def set_filesOrder_def split: found.splits jsval.splits if_splits)

lemma moveTo_modelled: "modelled (snd (moveTo fromName toName s)) = modelled s"
  by (simp add: moveTo_def Let_def split: jsval.splits)

lemma getFileList_sticky: "modelled (snd (getFileList origObj s)) \<Longrightarrow> modelled s"
  by (auto simp: getFileList_def Let_def split: jsval.splits prod.splits if_splits)

lemma assign_property_sticky: "modelled (assign_property nm v s) \<Longrightarrow> modelled s"
  by (auto simp: assign_property_def split: jsval.splits if_splits)

lemma fold_assign_sticky:
  "modelled (fold (\<lambda>(k, v). assign_property k v) kvs s) \<Longrightarrow> modelled s"
  by (induction kvs arbitrary: s) (auto dest: assign_property_sticky)

lemma exec_sticky: "modelled (exec a s) \<Longrightarrow> modelled s"
proof (cases a)
  case (UpdateFile nm dat)
  assume "modelled (exec a s)"
  with UpdateFile show ?thesis
    by (auto simp: updateFile_eq dest: writeFile_sticky split: if_splits)
next
  case (SetProperties obj)
  assume "modelled (exec a s)"
  with SetProperties show ?thesis
    by (cases obj) (auto simp: setProperties_def dest: fold_assign_sticky)
qed (auto simp: setProperty_def moveTo_modelled removeProperty_other
       dest: writeFile_sticky removeFile_sticky renameFile_sticky getFileList_sticky
         assign_property_sticky)

text \<open>
  C2 (amended). The constructor, given a properties document that is an object and a
  directory without an entry named \<^verbatim>\<open>__proto__\<close>, leaves \<^verbatim>\<open>filesOrder\<close> a permutation of the
  keys of the file table. From a state where it is one (and where each key leads to the
  record that carries it as its name), every call of \<^verbatim>\<open>writeFile\<close>, \<^verbatim>\<open>updateFile\<close>,
  \<^verbatim>\<open>removeFile\<close>, \<^verbatim>\<open>renameFile\<close>, \<^verbatim>\<open>moveTo\<close>, \<^verbatim>\<open>getFileList\<close> and \<^verbatim>\<open>removeProperty\<close>, and every
  call of \<^verbatim>\<open>setProperty\<close> and \<^verbatim>\<open>setProperties\<close> that does not assign the key
  \<^verbatim>\<open>filesOrder\<close>, leads to a state where it is one again, as long as the call stays within
  the model: it does not use a member that the table inherits from \<^verbatim>\<open>Object.prototype\<close>
  as a file record, and it does not replace the prototype of the property map.
\<close>

theorem filesOrder_permutation_preserved:
  "(sort_contract srt \<and> modelled (Storage srt entries doc) \<longrightarrow>
      recordsInv (Storage srt entries doc) \<and> orderInv (Storage srt entries doc)) \<and>
   (recordsInv s \<and> orderInv s \<and> \<not> assigns_filesOrder a \<and> modelled (exec a s) \<longrightarrow>
      modelled s \<and> recordsInv (exec a s) \<and> orderInv (exec a s))"
  using Storage_inv [of srt entries doc] exec_inv [of s a] exec_sticky [of a s] by blast

theorem filesOrder_permutation_preserved_witness:
  "sort_contract insertion_sort \<and>
   modelled (Storage insertion_sort [(0, ''a'', JStr []), (1, ''b'', JStr [])] (JObj [])) \<and>
   recordsInv (Storage insertion_sort [(0, ''a'', JStr []), (1, ''b'', JStr [])] (JObj [])) \<and>
   orderInv (Storage insertion_sort [(0, ''a'', JStr []), (1, ''b'', JStr [])] (JObj [])) \<and>
   \<not> assigns_filesOrder (RenameFile (ArgStr ''a'') (ArgStr ''c'')) \<and>
   modelled (exec (RenameFile (ArgStr ''a'') (ArgStr ''c''))
      (Storage insertion_sort [(0, ''a'', JStr []), (1, ''b'', JStr [])] (JObj []))) \<and>
   orderInv (exec (RenameFile (ArgStr ''a'') (ArgStr ''c''))
      (Storage insertion_sort [(0, ''a'', JStr []), (1, ''b'', JStr [])] (JObj []))) \<and>
   filesOrder (exec (RenameFile (ArgStr ''a'') (ArgStr ''c''))
      (Storage insertion_sort [(0, ''a'', JStr []), (1, ''b'', JStr [])] (JObj []))) =
     JArr [JStr ''c'', JStr ''b''] \<and>
   map fst (files (exec (RenameFile (ArgStr ''a'') (ArgStr ''c''))
      (Storage insertion_sort [(0, ''a'', JStr []), (1, ''b'', JStr [])] (JObj [])))) = [''b'', ''c'']"
proof -
  let ?S = "Storage insertion_sort [(0, ''a'', JStr []), (1, ''b'', JStr [])] (JObj [])"
  have m: "modelled ?S" "modelled (exec (RenameFile (ArgStr ''a'') (ArgStr ''c'')) ?S)"
    by code_simp+
  have after: "filesOrder (exec (RenameFile (ArgStr ''a'') (ArgStr ''c'')) ?S) = JArr [JStr ''c'', JStr ''b'']"
    "map fst (files (exec (RenameFile (ArgStr ''a'') (ArgStr ''c'')) ?S)) = [''b'', ''c'']"
    by code_simp+
  from filesOrder_permutation_preserved
    [of insertion_sort "[(0, ''a'', JStr []), (1, ''b'', JStr [])]" "JObj []" ?S
      "RenameFile (ArgStr ''a'') (ArgStr ''c'')"]
  show ?thesis using after m insertion_sort_contract by simp
qed

text \<open>
  \<^verbatim>\<open>setProperty\<close> assigns whatever key it is given: over a directory with the one file
  \<^verbatim>\<open>a\<close>, the call \<^verbatim>\<open>setProperty('filesOrder', [])\<close> leaves an empty \<^verbatim>\<open>filesOrder\<close> beside a table
  with the key \<^verbatim>\<open>a\<close>.
\<close>

theorem setProperty_breaks_order_counterexample:
  "modelled (Storage insertion_sort [(0, ''a'', JStr [])] (JObj [])) \<and>
   recordsInv (Storage insertion_sort [(0, ''a'', JStr [])] (JObj [])) \<and>
   orderInv (Storage insertion_sort [(0, ''a'', JStr [])] (JObj [])) \<and>
   modelled (exec (SetProperty ''filesOrder'' (JArr []))
     (Storage insertion_sort [(0, ''a'', JStr [])] (JObj []))) \<and>
   \<not> orderInv (exec (SetProperty ''filesOrder'' (JArr []))
     (Storage insertion_sort [(0, ''a'', JStr [])] (JObj [])))"
  by code_simp

section \<open>Renaming\<close>

lemma renameFile_properties:
  assumes "truthy_name newFile" and "map_of (files s) (key_of nm) = Some r"
    and "table_get (files s) (key_of newFile) = Absent" and "filesOrder s = JArr order"
    and "k \<noteq> ''filesOrder''"
  shows "map_of (properties (snd (renameFile nm newFile s))) k = map_of (properties s) k"
  using assms by (simp add: renameFile_def Let_def set_filesOrder_def update_conv')

text \<open>
  What \<^verbatim>\<open>renameFile(a, b)\<close> does. It returns \<^verbatim>\<open>undefined\<close>, which is falsy, and leaves the
  whole state as it was when \<^verbatim>\<open>b\<close> is falsy, when the lookup of \<^verbatim>\<open>a\<close> in the table finds
  nothing, or when the lookup of \<^verbatim>\<open>b\<close> finds something: a record, or a member inherited
  from \<^verbatim>\<open>Object.prototype\<close>. When \<^verbatim>\<open>a\<close> is a key and the lookup of \<^verbatim>\<open>b\<close> finds nothing, in a
  state that satisfies the two invariants, it returns \<^verbatim>\<open>true\<close>; the key \<^verbatim>\<open>b\<close> now leads to
  the record \<^verbatim>\<open>a\<close> led to, \<^verbatim>\<open>a\<close> is no longer a key and every other key leads where it
  did; that record has the name \<^verbatim>\<open>b\<close> and its index, the other records and the counter
  are untouched; \<^verbatim>\<open>filesOrder\<close> holds \<^verbatim>\<open>b\<close> at the position of \<^verbatim>\<open>a\<close> and is otherwise the same
  array; the other properties keep their values.
\<close>

lemma renameFile_outcome:
  "(\<not> truthy_name b \<or> table_get (files s) (key_of a) = Absent \<or>
    table_get (files s) (key_of b) \<noteq> Absent \<longrightarrow>
      renameFile a b s = (Returned JUndefined, s) \<and> \<not> truthy JUndefined) \<and>
   (recordsInv s \<and> orderInv s \<and> truthy_name b \<and> map_of (files s) (key_of a) = Some r \<and>
    table_get (files s) (key_of b) = Absent \<longrightarrow>
      (\<exists>order i. filesOrder s = JArr order \<and> i < length order \<and> order ! i = JStr (key_of a) \<and>
         fst (renameFile a b s) = Returned (JBool True) \<and>
         filesOrder (snd (renameFile a b s)) = JArr (order[i := JStr (key_of b)]) \<and>
         map_of (files (snd (renameFile a b s))) (key_of b) = Some r \<and>
         map_of (files (snd (renameFile a b s))) (key_of a) = None \<and>
         (\<forall>k. k \<noteq> key_of a \<and> k \<noteq> key_of b \<longrightarrow>
              map_of (files (snd (renameFile a b s))) k = map_of (files s) k) \<and>
         heap (snd (renameFile a b s)) = (heap s)[r := (heap s ! r)\<lparr>name := key_of b\<rparr>] \<and>
         name (heap (snd (renameFile a b s)) ! r) = key_of b \<and>
         index (heap (snd (renameFile a b s)) ! r) = index (heap s ! r) \<and>
         maxIndex (snd (renameFile a b s)) = maxIndex s \<and>
         (\<forall>k. k \<noteq> ''filesOrder'' \<longrightarrow>
              map_of (properties (snd (renameFile a b s))) k = map_of (properties s) k)))"
proof (intro conjI impI)
  assume "\<not> truthy_name b \<or> table_get (files s) (key_of a) = Absent \<or>
    table_get (files s) (key_of b) \<noteq> Absent"
  then show "renameFile a b s = (Returned JUndefined, s)" by (rule renameFile_refused)
next
  show "\<not> truthy JUndefined" by simp
next
  assume h: "recordsInv s \<and> orderInv s \<and> truthy_name b \<and> map_of (files s) (key_of a) = Some r \<and>
    table_get (files s) (key_of b) = Absent"
  then have r: "truthy_name b" "map_of (files s) (key_of a) = Some r"
    "table_get (files s) (key_of b) = Absent"
    and rec: "recordsInv s" by simp_all
  from r(3) have r3: "map_of (files s) (key_of b) = None" by (simp add: table_get_Absent_iff)
  from h obtain order where order: "filesOrder s = JArr order" "distinct order"
    "set order = JStr ` fst ` set (files s)" by (auto simp: orderInv_iff)
  from rec r(2) have nm: "name (heap s ! r) = key_of a" and rlen: "r < length (heap s)"
    by (simp_all add: recordsInv_iff)
  from r(1) have nv: "val_of b = JStr (key_of b)" by (simp add: truthy_name_key)
  from r(2) have "key_of a \<in> fst ` set (files s)"
    by (metis map_of_eq_None_iff option.distinct(1))
  with order(3) have "JStr (key_of a) \<in> set order" by simp
  then obtain i where i: "indexOf order (JStr (key_of a)) = int i" "i < length order"
    "order ! i = JStr (key_of a)" by (rule indexOf_position)
  from r(2) r3 have ne: "key_of a \<noteq> key_of b" by auto
  note rn = renameFile_done [OF r order(1), unfolded nm]
  note pr = renameFile_properties [OF r order(1)]
  let ?s' = "snd (renameFile a b s)"
  have "filesOrder s = JArr order \<and> i < length order \<and> order ! i = JStr (key_of a) \<and>
         fst (renameFile a b s) = Returned (JBool True) \<and>
         filesOrder ?s' = JArr (order[i := JStr (key_of b)]) \<and>
         map_of (files ?s') (key_of b) = Some r \<and>
         map_of (files ?s') (key_of a) = None \<and>
         (\<forall>k. k \<noteq> key_of a \<and> k \<noteq> key_of b \<longrightarrow> map_of (files ?s') k = map_of (files s) k) \<and>
         heap ?s' = (heap s)[r := (heap s ! r)\<lparr>name := key_of b\<rparr>] \<and>
         name (heap ?s' ! r) = key_of b \<and>
         index (heap ?s' ! r) = index (heap s ! r) \<and>
         maxIndex ?s' = maxIndex s \<and>
         (\<forall>k. k \<noteq> ''filesOrder'' \<longrightarrow> map_of (properties ?s') k = map_of (properties s) k)"
    using order(1) i rlen ne pr by (simp add: rn nv update_conv' delete_conv')
  then show "\<exists>order i. filesOrder s = JArr order \<and> i < length order \<and> order ! i = JStr (key_of a) \<and>
         fst (renameFile a b s) = Returned (JBool True) \<and>
         filesOrder ?s' = JArr (order[i := JStr (key_of b)]) \<and>
         map_of (files ?s') (key_of b) = Some r \<and>
         map_of (files ?s') (key_of a) = None \<and>
         (\<forall>k. k \<noteq> key_of a \<and> k \<noteq> key_of b \<longrightarrow> map_of (files ?s') k = map_of (files s) k) \<and>
         heap ?s' = (heap s)[r := (heap s ! r)\<lparr>name := key_of b\<rparr>] \<and>
         name (heap ?s' ! r) = key_of b \<and>
         index (heap ?s' ! r) = index (heap s ! r) \<and>
         maxIndex ?s' = maxIndex s \<and>
         (\<forall>k. k \<noteq> ''filesOrder'' \<longrightarrow> map_of (properties ?s') k = map_of (properties s) k)"
    by blast
qed

text \<open>
  C6. The table is an object created with \<^verbatim>\<open>{}\<close>, and \<^verbatim>\<open>renameFile\<close> tests
  \<^verbatim>\<open>cache.files[file]\<close> and \<^verbatim>\<open>cache.files[newFile]\<close> for truthiness. Over a directory that
  holds the one file \<^verbatim>\<open>a\<close>, the name \<^verbatim>\<open>toString\<close> is not a key of the table (\<^verbatim>\<open>count()\<close>, which
  goes by \<^verbatim>\<open>Object.keys\<close>, is 1, and \<^verbatim>\<open>getFileList\<close> lists the record of \<^verbatim>\<open>a\<close> alone), yet
  the lookup finds the function inherited from \<^verbatim>\<open>Object.prototype\<close>:
  \<^verbatim>\<open>renameFile('a', 'toString')\<close> returns \<^verbatim>\<open>undefined\<close> and renames nothing, where a file
  \<^verbatim>\<open>a\<close> exists and no file \<^verbatim>\<open>toString\<close> does. In the other direction the name
  \<^verbatim>\<open>constructor\<close> is not a key either, and \<^verbatim>\<open>renameFile('constructor', 'c')\<close> does not
  return at the guard: it goes on with the inherited function as the record to rename.
\<close>

theorem renameFile_inherited_name:
  "map fst (files (Storage insertion_sort [(4, ''a'', JStr ''x'')] (JObj []))) = [''a''] \<and>
   count (Storage insertion_sort [(4, ''a'', JStr ''x'')] (JObj [])) = 1 \<and>
   fst (getFileList True (Storage insertion_sort [(4, ''a'', JStr ''x'')] (JObj []))) =
     Returned [Some 0] \<and>
   existsFile (ArgStr ''a'') (Storage insertion_sort [(4, ''a'', JStr ''x'')] (JObj [])) = Own 0 \<and>
   map_of (files (Storage insertion_sort [(4, ''a'', JStr ''x'')] (JObj []))) ''toString'' = None \<and>
   existsFile (ArgStr ''toString'') (Storage insertion_sort [(4, ''a'', JStr ''x'')] (JObj [])) =
     Inherited \<and>
   truthy_name (ArgStr ''toString'') \<and>
   renameFile (ArgStr ''a'') (ArgStr ''toString'')
     (Storage insertion_sort [(4, ''a'', JStr ''x'')] (JObj [])) =
     (Returned JUndefined, Storage insertion_sort [(4, ''a'', JStr ''x'')] (JObj [])) \<and>
   map_of (files (Storage insertion_sort [(4, ''a'', JStr ''x'')] (JObj []))) ''constructor'' = None \<and>
   existsFile (ArgStr ''constructor'') (Storage insertion_sort [(4, ''a'', JStr ''x'')] (JObj [])) =
     Inherited \<and>
   fst (renameFile (ArgStr ''constructor'') (ArgStr ''c'')
     (Storage insertion_sort [(4, ''a'', JStr ''x'')] (JObj []))) = Unmodelled \<and>
   fst (renameFile (ArgStr ''a'') (ArgStr ''c'')
     (Storage insertion_sort [(4, ''a'', JStr ''x'')] (JObj []))) = Returned (JBool True)"
  by code_simp

section \<open>Listing the files\<close>

lemma copy_all_refs:
  "\<forall>r \<in> set rs. r < length h \<Longrightarrow>
     copy_all (map Some rs) h =
       (map (\<lambda>i. Some (length h + i)) [0..<length rs], h @ map (\<lambda>r. copied (h ! r)) rs)"
proof (induction rs arbitrary: h)
  case Nil
  show ?case by simp
next
  case (Cons r rs)
  let ?h1 = "h @ [copied (h ! r)]"
  from Cons.prems have old: "\<forall>q \<in> set rs. q < length h" and r: "r < length h" by simp_all
  then have "\<forall>q \<in> set rs. q < length ?h1" by auto
  from Cons.IH [OF this]
  have ih: "copy_all (map Some rs) ?h1 =
      (map (\<lambda>i. Some (length ?h1 + i)) [0..<length rs], ?h1 @ map (\<lambda>q. copied (?h1 ! q)) rs)" .
  have same: "map (\<lambda>q. copied (?h1 ! q)) rs = map (\<lambda>q. copied (h ! q)) rs"
    using old by (simp add: nth_append)
  have shift: "map (\<lambda>i. Some (length h + i)) [0..<Suc (length rs)] =
      Some (length h) # map (\<lambda>i. Some (length ?h1 + i)) [0..<length rs]"
  proof -
    have "[0..<Suc (length rs)] = 0 # map Suc [0..<length rs]"
      by (simp add: upt_conv_Cons map_Suc_upt del: upt_Suc)
    then show ?thesis by (simp add: comp_def del: upt_Suc)
  qed
  show ?case
    using ih same shift by (simp add: copyFileObj_def del: upt_Suc)
qed

lemma order_names:
  assumes "set order = JStr ` A"
  shows "order = map JStr (map ToString order)"
proof -
  have "\<forall>e \<in> set order. JStr (ToString e) = e" using assms by auto
  then show ?thesis by (simp add: map_idI)
qed

lemma listed_records:
  assumes "recordsInv s" and "orderInv s"
  obtains names refs where "filesOrder s = JArr (map JStr names)" and "distinct names"
    and "set names = fst ` set (files s)" and "length names = count s"
    and "refs = map (\<lambda>n. the (map_of (files s) n)) names"
    and "map (\<lambda>file. table_get (files s) (ToString file)) (map JStr names) = map Own refs"
    and "\<forall>r \<in> set refs. r < length (heap s)"
    and "\<forall>i < length names. map_of (files s) (names ! i) = Some (refs ! i) \<and>
           name (heap s ! (refs ! i)) = names ! i"
proof -
  from assms(2) obtain order where order: "filesOrder s = JArr order" "distinct order"
    "set order = JStr ` fst ` set (files s)" by (auto simp: orderInv_iff)
  define names where "names = map ToString order"
  define refs where "refs = map (\<lambda>n. the (map_of (files s) n)) names"
  have on: "order = map JStr names" unfolding names_def using order(3) by (rule order_names)
  have dn: "distinct names" using order(2) by (simp add: on distinct_map)
  have sn: "set names = fst ` set (files s)"
  proof -
    from order(3) have "JStr ` set names = JStr ` fst ` set (files s)" by (simp add: on)
    then show ?thesis by (simp add: inj_image_eq_iff inj_on_def)
  qed
  from assms(1) have dk: "distinct (map fst (files s))" by (simp add: recordsInv_iff)
  have "length names = card (set names)" using dn by (simp add: distinct_card)
  also have "\<dots> = card (set (map fst (files s)))" by (simp add: sn)
  also have "\<dots> = length (map fst (files s))" using dk by (rule distinct_card)
  finally have ln: "length names = count s" by (simp add: count_length)
  have key: "\<exists>r. map_of (files s) n = Some r \<and> r < length (heap s) \<and> name (heap s ! r) = n"
    if "n \<in> set names" for n
  proof -
    from that sn have "n \<in> fst ` set (files s)" by simp
    then obtain r where "map_of (files s) n = Some r"
      by (metis map_of_eq_None_iff not_Some_eq)
    with assms(1) show ?thesis by (simp add: recordsInv_iff)
  qed
  have found: "map (\<lambda>file. table_get (files s) (ToString file)) (map JStr names) = map Own refs"
    unfolding refs_def using key by (fastforce simp: comp_def)
  have bound: "\<forall>r \<in> set refs. r < length (heap s)"
    unfolding refs_def using key by fastforce
  have each: "\<forall>i < length names. map_of (files s) (names ! i) = Some (refs ! i) \<and>
           name (heap s ! (refs ! i)) = names ! i"
  proof (intro allI impI)
    fix i assume i: "i < length names"
    then have "names ! i \<in> set names" by simp
    from key [OF this] show "map_of (files s) (names ! i) = Some (refs ! i) \<and>
           name (heap s ! (refs ! i)) = names ! i"
      using i by (auto simp: refs_def)
  qed
  show thesis
    using on dn sn ln refs_def found bound each order(1) by (intro that [of names refs]) simp_all
qed

text \<open>
  C8. In a state that satisfies the two invariants, let \<open>names\<close> be the sequence of
  \<^verbatim>\<open>filesOrder\<close>: it lists every key of the file table once, so it has \<^verbatim>\<open>count()\<close> entries.
  \<^verbatim>\<open>getFileList(true)\<close> returns, in that sequence, the references the table holds: the
  internal records, each carrying the listed name. \<^verbatim>\<open>getFileList()\<close> returns, in that
  sequence, references to objects allocated by the call; the new object at position \<open>i\<close>
  has the \<^verbatim>\<open>index\<close>, \<^verbatim>\<open>name\<close>, \<^verbatim>\<open>data\<close> and \<^verbatim>\<open>selected\<close> of the record of the \<open>i\<close>-th name and
  no flags, and writing anything to it leaves every object that existed before the call,
  and so every internal record, as it was. Neither call changes anything else.
\<close>

theorem getFileList_in_order:
  assumes "recordsInv s" and "orderInv s"
  shows "\<exists>names refs.
     filesOrder s = JArr (map JStr names) \<and> distinct names \<and>
     set names = fst ` set (files s) \<and> length names = count s \<and> length refs = length names \<and>
     (\<forall>i < length names. map_of (files s) (names ! i) = Some (refs ! i) \<and>
          refs ! i < length (heap s) \<and> name (heap s ! (refs ! i)) = names ! i) \<and>
     getFileList True s = (Returned (map Some refs), s) \<and>
     getFileList False s =
       (Returned (map (\<lambda>i. Some (length (heap s) + i)) [0..<length names]),
        s\<lparr>heap := heap s @ map (\<lambda>r. copied (heap s ! r)) refs\<rparr>) \<and>
     (\<forall>f. index (copied f) = index f \<and> name (copied f) = name f \<and> data (copied f) = data f \<and>
          selected (copied f) = selected f \<and> flags (copied f) = idle) \<and>
     (\<forall>i < length names. \<forall>v. \<forall>j < length (heap s).
          ((heap s @ map (\<lambda>r. copied (heap s ! r)) refs)[length (heap s) + i := v]) ! j = heap s ! j)"
proof -
  from assms obtain names refs where l: "filesOrder s = JArr (map JStr names)" "distinct names"
    "set names = fst ` set (files s)" "length names = count s"
    "refs = map (\<lambda>n. the (map_of (files s) n)) names"
    "map (\<lambda>file. table_get (files s) (ToString file)) (map JStr names) = map Own refs"
    "\<forall>r \<in> set refs. r < length (heap s)"
    "\<forall>i < length names. map_of (files s) (names ! i) = Some (refs ! i) \<and>
           name (heap s ! (refs ! i)) = names ! i"
    by (rule listed_records)
  have len: "length refs = length names" by (simp add: l(5))
  have none: "Inherited \<notin> set (map Own refs)" by auto
  have some: "map (\<lambda>l. case l of Own r \<Rightarrow> Some r | _ \<Rightarrow> None) (map Own refs) = map Some refs"
    by simp
  have raw: "getFileList True s = (Returned (map Some refs), s)"
    using l(6) none some by (simp add: getFileList_def l(1) Let_def del: set_map map_map)
  have copies: "getFileList False s =
       (Returned (map (\<lambda>i. Some (length (heap s) + i)) [0..<length names]),
        s\<lparr>heap := heap s @ map (\<lambda>r. copied (heap s ! r)) refs\<rparr>)"
    using l(6) none some copy_all_refs [OF l(7)]
    by (simp add: getFileList_def l(1) len Let_def del: set_map map_map)
  have bound: "\<forall>i < length names. refs ! i < length (heap s)"
    using l(7) len by simp
  have untouched: "\<forall>i < length names. \<forall>v. \<forall>j < length (heap s).
      ((heap s @ map (\<lambda>r. copied (heap s ! r)) refs)[length (heap s) + i := v]) ! j = heap s ! j"
    by (simp add: nth_append)
  have fields: "\<forall>f. index (copied f) = index f \<and> name (copied f) = name f \<and> data (copied f) = data f \<and>
          selected (copied f) = selected f \<and> flags (copied f) = idle"
    by (simp add: copied_def)
  show ?thesis
    using l(1-4) len l(8) bound raw copies fields untouched
    by (intro exI [of _ names] exI [of _ refs]) simp
qed

theorem getFileList_in_order_witness:
  "recordsInv (Storage insertion_sort [(5, ''b'', JStr ''x''), (2, ''a'', JStr [])] (JObj [])) \<and>
   orderInv (Storage insertion_sort [(5, ''b'', JStr ''x''), (2, ''a'', JStr [])] (JObj [])) \<and>
   (\<exists>names refs.
      filesOrder (Storage insertion_sort [(5, ''b'', JStr ''x''), (2, ''a'', JStr [])] (JObj [])) = JArr (map JStr names) \<and>
      length names = count (Storage insertion_sort [(5, ''b'', JStr ''x''), (2, ''a'', JStr [])] (JObj [])) \<and>
      getFileList True (Storage insertion_sort [(5, ''b'', JStr ''x''), (2, ''a'', JStr [])] (JObj [])) =
        (Returned (map Some refs), Storage insertion_sort [(5, ''b'', JStr ''x''), (2, ''a'', JStr [])] (JObj []))) \<and>
   fst (getFileList True (Storage insertion_sort [(5, ''b'', JStr ''x''), (2, ''a'', JStr [])] (JObj []))) =
     Returned [Some 1, Some 0] \<and>
   fst (getFileList False (Storage insertion_sort [(5, ''b'', JStr ''x''), (2, ''a'', JStr [])] (JObj []))) =
     Returned [Some 2, Some 3]"
proof -
  let ?S = "Storage insertion_sort [(5, ''b'', JStr ''x''), (2, ''a'', JStr [])] (JObj [])"
  have h: "recordsInv ?S" "orderInv ?S" by code_simp+
  have v: "fst (getFileList True ?S) = Returned [Some 1, Some 0]"
    "fst (getFileList False ?S) = Returned [Some 2, Some 3]" by code_simp+
  from getFileList_in_order [OF h] obtain names refs where
    "filesOrder ?S = JArr (map JStr names)" "length names = count ?S"
    "getFileList True ?S = (Returned (map Some refs), ?S)" by blast
  then have "\<exists>names refs. filesOrder ?S = JArr (map JStr names) \<and> length names = count ?S \<and>
      getFileList True ?S = (Returned (map Some refs), ?S)" by blast
  with h v show ?thesis by simp
qed

section \<open>Indices\<close>




























text \<open>
  At \<open>2 ^ 53\<close> the increment of the counter is rounded away. Over a directory whose one entry is \<^verbatim>\<open>9007199254740992.a\<close>, two calls of
  \<^verbatim>\<open>writeFile\<close> with new names both assign the index \<open>2 ^ 53\<close>, which is the index of \<^verbatim>\<open>a\<close>.
\<close>

lemma writeFile_index_repeats:
  "js_inc (2 ^ 53) = 2 ^ 53 \<and>
   fst (run [WriteFile (ArgStr ''b'') JNull, WriteFile (ArgStr ''c'') JNull]
          (Storage insertion_sort [(9007199254740992, ''a'', JStr [])] (JObj []))) =
     [9007199254740992, 9007199254740992] \<and>
   modelled (snd (run [WriteFile (ArgStr ''b'') JNull, WriteFile (ArgStr ''c'') JNull]
          (Storage insertion_sort [(9007199254740992, ''a'', JStr [])] (JObj []))))"
  by code_simp

section \<open>Single-flight persistence\<close>









end
